theory Spec2Isabelle
  imports
    Main
    "HOL-Library.Char_ord"
    "HOL-Library.List_Lexorder"
    "HOL-Library.Product_Lexorder"
    "HOL-Library.AList"
    "HOL-Library.Multiset"
begin

section \<open>Values and strings\<close>

text \<open>
  The backend of \<^verbatim>\<open>src/app.py\<close> works on parsed JSON. A JSON value is one of the
  constructors below; numbers are kept as integers (the handlers only ever test a number
  for being a string, a list, or truthy). A string is the list of its code points, each
  below 256 (Latin-1): Python compares strings code point by code point, which is the
  lexicographic order on character lists.
\<close>

datatype jval =
    JNull
  | JBool bool
  | JNum int
  | JStr string
  | JArr "jval list"
  | JObj "(string \<times> jval) list"

text \<open>Python truthiness, as used by \<^verbatim>\<open>x or default\<close> and \<^verbatim>\<open>if not x\<close>.\<close>

fun truthy :: "jval \<Rightarrow> bool" where
  "truthy JNull = False"
| "truthy (JBool b) = b"
| "truthy (JNum n) = (n \<noteq> 0)"
| "truthy (JStr s) = (s \<noteq> [])"
| "truthy (JArr xs) = (xs \<noteq> [])"
| "truthy (JObj kvs) = (kvs \<noteq> [])"

text \<open>
  \<^verbatim>\<open>str.isspace\<close> below 256: tab, line feed, vertical tab, form feed, carriage
  return, the four separators 0x1C to 0x1F, the space, next line (0x85) and the no-break
  space (0xA0).
\<close>

definition is_space :: "char \<Rightarrow> bool" where
  "is_space c =
     (let n = (of_char c :: nat)
      in (9 \<le> n \<and> n \<le> 13) \<or> (28 \<le> n \<and> n \<le> 32) \<or> n = 133 \<or> n = 160)"

text \<open>\<^verbatim>\<open>str.strip()\<close>: whitespace is removed at both ends.\<close>

definition strip :: "string \<Rightarrow> string" where
  "strip s = rev (dropWhile is_space (rev (dropWhile is_space s)))"

text \<open>
  The lowercase of a code point below 256: the letters A to Z and the capitals 0xC0 to
  0xDE, the multiplication sign 0xD7 apart, move up by 32.
\<close>

definition lower_char :: "char \<Rightarrow> char" where
  "lower_char c =
     (let n = (of_char c :: nat)
      in if (65 \<le> n \<and> n \<le> 90) \<or> (192 \<le> n \<and> n \<le> 222 \<and> n \<noteq> 215)
         then char_of (n + 32) else c)"

text \<open>\<^verbatim>\<open>str.lower()\<close>, code point by code point.\<close>

definition lower :: "string \<Rightarrow> string" where
  "lower s = map lower_char s"

text \<open>Exceptions that escape a handler (Flask answers them with a 500).\<close>

datatype py_error = AttributeError | IndexError

section \<open>The catalog and the topic-overlap scorer\<close>

text \<open>
  A catalog entry is a dictionary with the keys \<^verbatim>\<open>title\<close>, \<^verbatim>\<open>description\<close>,
  \<^verbatim>\<open>link\<close> and \<^verbatim>\<open>tags\<close>; a scored item is the same dictionary without
  \<^verbatim>\<open>tags\<close> and with \<^verbatim>\<open>score\<close>.
\<close>

record entry =
  title :: string
  description :: string
  link :: string

record resource = entry +
  tags :: "string list"

record item = entry +
  score :: int

definition SAMPLE_RESOURCES :: "resource list" where
  "SAMPLE_RESOURCES =
    [\<lparr>title = ''Flask Basics'', description = ''Learn web development with Flask'',
       link = ''https://flask.palletsprojects.com/'', tags = [''python'', ''web'', ''flask'']\<rparr>,
     \<lparr>title = ''Django Overview'', description = ''Batteries-included web framework'',
       link = ''https://www.djangoproject.com/'', tags = [''python'', ''web'', ''django'']\<rparr>,
     \<lparr>title = ''Pandas Intro'', description = ''Data analysis library'',
       link = ''https://pandas.pydata.org/'', tags = [''python'', ''data'', ''pandas'']\<rparr>,
     \<lparr>title = ''React Docs'', description = ''Build UIs with React'',
       link = ''https://react.dev/'', tags = [''javascript'', ''react'', ''frontend'']\<rparr>,
     \<lparr>title = ''Node.js Guides'', description = ''Server-side JS runtime'',
       link = ''https://nodejs.org/en/learn'', tags = [''javascript'', ''node'', ''backend'']\<rparr>]"

text \<open>
  The set comprehension of line 51:
  \<^verbatim>\<open>{t.strip().lower() for t in topics if isinstance(t, str) and t.strip()}\<close>.
\<close>

fun normalized_list :: "jval list \<Rightarrow> string list" where
  "normalized_list [] = []"
| "normalized_list (JStr t # ts) =
     (if strip t \<noteq> [] then lower (strip t) # normalized_list ts else normalized_list ts)"
| "normalized_list (_ # ts) = normalized_list ts"

definition normalized_topics :: "jval list \<Rightarrow> string set" where
  "normalized_topics topics = set (normalized_list topics)"

text \<open>Line 57: the lowercased tag set of a resource.\<close>

definition tag_set :: "resource \<Rightarrow> string set" where
  "tag_set r = set (map lower (tags r))"

text \<open>Line 58: the size of the intersection.\<close>

definition overlap :: "string set \<Rightarrow> resource \<Rightarrow> int" where
  "overlap nt r = int (card (tag_set r \<inter> nt))"

text \<open>Lines 61 and 62: every field but the tags, and the score.\<close>

definition mk_item :: "resource \<Rightarrow> int \<Rightarrow> item" where
  "mk_item r s = \<lparr>title = title r, description = description r, link = link r, score = s\<rparr>"

text \<open>The sort key of lines 65 and 214.\<close>

definition rank_key :: "item \<Rightarrow> int \<times> string" where
  "rank_key x = (- score x, title x)"

text \<open>The loop of lines 56 to 63.\<close>

fun score_loop :: "string set \<Rightarrow> resource list \<Rightarrow> item list \<Rightarrow> item list" where
  "score_loop nt [] result = result"
| "score_loop nt (r # rs) result =
     (let s = overlap nt r
      in if s > 0 then score_loop nt rs (result @ [mk_item r s]) else score_loop nt rs result)"

text \<open>
  \<^verbatim>\<open>list.sort(key=...)\<close> is a stable sort by key; so is \<^const>\<open>sort_key\<close>, and a
  stable sort has one result.
\<close>

definition score_resources_by_topics :: "resource list \<Rightarrow> jval list \<Rightarrow> item list" where
  "score_resources_by_topics resources topics =
     (let nt = normalized_topics topics
      in if nt = {} then [] else sort_key rank_key (score_loop nt resources []))"

section \<open>The activity store\<close>

text \<open>
  The store is the JSON document \<^verbatim>\<open>activity.json\<close>: a dictionary from email to
  user record, in insertion order. Every operation loads it, changes it and writes it
  back, so the store is passed in and returned. A failing read or write of the file is
  outside the model.
\<close>

record user =
  topics :: "string list"
  completed :: "string list"
  points :: int

type_synonym store = "(string \<times> user) list"

definition new_user :: user where
  "new_user = \<lparr>topics = [], completed = [], points = 0\<rparr>"

text \<open>\<^verbatim>\<open>data.get(email) or {'topics': [], 'completed': [], 'points': 0}\<close>\<close>

definition get_user :: "store \<Rightarrow> string \<Rightarrow> user" where
  "get_user data email = (case map_of data email of None \<Rightarrow> new_user | Some u \<Rightarrow> u)"

text \<open>One round of the loop of lines 128 to 130.\<close>

fun append_topic :: "jval \<Rightarrow> user \<Rightarrow> user" where
  "append_topic (JStr t) u =
     (if strip t \<noteq> [] then u\<lparr>topics := topics u @ [lower (strip t)]\<rparr> else u)"
| "append_topic _ u = u"

definition record_user_topics :: "store \<Rightarrow> string \<Rightarrow> jval list \<Rightarrow> store" where
  "record_user_topics data email ts =
     AList.update email (fold append_topic ts (get_user data email)) data"

text \<open>\<^verbatim>\<open>counts[t] = counts.get(t, 0) + 1\<close> on an insertion-ordered dictionary.\<close>

definition get0 :: "(string \<times> int) list \<Rightarrow> string \<Rightarrow> int" where
  "get0 counts t = (case map_of counts t of None \<Rightarrow> 0 | Some c \<Rightarrow> c)"

definition bump :: "string \<Rightarrow> (string \<times> int) list \<Rightarrow> (string \<times> int) list" where
  "bump t counts = AList.update t (get0 counts t + 1) counts"

definition get_user_topic_counts :: "store \<Rightarrow> string \<Rightarrow> (string \<times> int) list" where
  "get_user_topic_counts data email = fold bump (topics (get_user data email)) []"

definition record_completion :: "store \<Rightarrow> string \<Rightarrow> string \<Rightarrow> int \<Rightarrow> user \<times> store" where
  "record_completion data email ttl points_award =
     (let u = get_user data email;
          completed_set = set (completed u);
          u' = (if ttl \<notin> completed_set
                then u\<lparr>points := points u + points_award,
                       completed := sorted_list_of_set (insert ttl completed_set)\<rparr>
                else u\<lparr>completed := sorted_list_of_set completed_set\<rparr>)
      in (u', AList.update email u' data))"

section \<open>The handlers\<close>

text \<open>
  A handler takes the store and the parsed request dictionary and returns the store and
  either an escaping exception or a reply. The video search of line 220 is an external
  service: it is the parameter \<open>yt\<close>, applied to the first topic.
\<close>

type_synonym video = "string \<times> string \<times> string"

datatype reply =
    Error400 string
  | RecommendOk "item list" "video list"
  | CompleteOk int "string list"
  | NextOk string
  | PopularOk "(string \<times> int) list"

fun status :: "reply \<Rightarrow> nat" where
  "status (Error400 _) = 400"
| "status _ = 200"

type_synonym request = "string \<rightharpoonup> jval"

text \<open>
  \<^verbatim>\<open>(data.get(k) or '')\<close>, on which the handler then calls \<^verbatim>\<open>.strip()\<close>: a truthy
  value that is not a string has no such method.
\<close>

definition str_field :: "request \<Rightarrow> string \<Rightarrow> py_error + string" where
  "str_field d k =
     (case d k of
        None \<Rightarrow> Inr []
      | Some v \<Rightarrow>
          if \<not> truthy v then Inr []
          else (case v of JStr s \<Rightarrow> Inr s | _ \<Rightarrow> Inl AttributeError))"

text \<open>Lines 186 to 189: the \<^verbatim>\<open>topics\<close> value, with the single \<^verbatim>\<open>topic\<close> fallback.\<close>

definition topics_of :: "request \<Rightarrow> jval" where
  "topics_of d =
     (let ts = (case d ''topics'' of None \<Rightarrow> JArr [] | Some v \<Rightarrow> v)
      in if \<not> truthy ts
         then (case d ''topic'' of Some (JStr t) \<Rightarrow> JArr [JStr t] | _ \<Rightarrow> ts)
         else ts)"

text \<open>Line 209: does a tag of the resource occur among the keys of the counts?\<close>

definition bonus :: "(string \<times> int) list \<Rightarrow> resource \<Rightarrow> int" where
  "bonus user_counts r = (if \<exists>tag \<in> tag_set r. tag \<in> fst ` set user_counts then 1 else 0)"

text \<open>The loop of lines 205 to 212.\<close>

fun boost_loop :: "(string \<times> int) list \<Rightarrow> item list \<Rightarrow> resource list \<Rightarrow> item list \<Rightarrow> item list" where
  "boost_loop user_counts recs [] boosted = boosted"
| "boost_loop user_counts recs (r # rs) boosted =
     (case find (\<lambda>x. title x = title r) recs of
        None \<Rightarrow> boost_loop user_counts recs rs boosted
      | Some base \<Rightarrow>
          boost_loop user_counts recs rs
            (boosted @ [base\<lparr>score := score base + bonus user_counts r\<rparr>]))"

text \<open>Lines 203 to 215.\<close>

definition history_boost :: "resource list \<Rightarrow> (string \<times> int) list \<Rightarrow> item list \<Rightarrow> item list" where
  "history_boost resources user_counts recs =
     (if user_counts \<noteq> [] then sort_key rank_key (boost_loop user_counts recs resources [])
      else recs)"

definition recommend ::
  "(jval \<Rightarrow> video list) \<Rightarrow> store \<Rightarrow> request \<Rightarrow> (py_error + reply) \<times> store" where
  "recommend yt data d =
     (case str_field d ''email'' of
        Inl e \<Rightarrow> (Inl e, data)
      | Inr em \<Rightarrow>
          (let email = lower (strip em)
           in case topics_of d of
                JArr ts \<Rightarrow>
                  (let data' = (if email \<noteq> [] then record_user_topics data email ts else data);
                       user_counts = (if email \<noteq> [] then get_user_topic_counts data' email else []);
                       recs = score_resources_by_topics SAMPLE_RESOURCES ts;
                       recs' = history_boost SAMPLE_RESOURCES user_counts recs;
                       vids = (case ts of [] \<Rightarrow> [] | t # _ \<Rightarrow> yt t)
                   in (Inr (RecommendOk recs' vids), data'))
              | _ \<Rightarrow> (Inr (Error400 ''topics must be a list''), data)))"

definition complete :: "store \<Rightarrow> request \<Rightarrow> (py_error + reply) \<times> store" where
  "complete data d =
     (case str_field d ''email'' of
        Inl e \<Rightarrow> (Inl e, data)
      | Inr em \<Rightarrow>
          (case str_field d ''title'' of
             Inl e \<Rightarrow> (Inl e, data)
           | Inr tv \<Rightarrow>
               (let email = lower (strip em); ttl = strip tv
                in if email = [] \<or> ttl = []
                   then (Inr (Error400 ''email and title are required''), data)
                   else (case record_completion data email ttl 10 of
                           (u, data') \<Rightarrow> (Inr (CompleteOk (points u) (completed u)), data')))))"

text \<open>
  \<^verbatim>\<open>/next-topic\<close> reads the email from the query string, whose values are strings.
\<close>

definition next_topic :: "store \<Rightarrow> (string \<rightharpoonup> string) \<Rightarrow> py_error + reply" where
  "next_topic data args =
     (let email = lower (strip (case args ''email'' of None \<Rightarrow> [] | Some s \<Rightarrow> s))
      in if email = [] then Inr (Error400 ''email is required'')
         else (let counts = get_user_topic_counts data email
               in if counts = [] then Inr (NextOk ''python'')
                  else (case sort_key (\<lambda>kv. (snd kv, fst kv)) counts of
                          [] \<Rightarrow> Inl IndexError
                        | kv # _ \<Rightarrow> Inr (NextOk (fst kv)))))"

text \<open>Lines 277 to 280: one pass over the users, one pass over each completed list.\<close>

definition count_by_title :: "store \<Rightarrow> (string \<times> int) list" where
  "count_by_title data = fold (\<lambda>(_, u) acc. fold bump (completed u) acc) data []"

definition admin_popular :: "store \<Rightarrow> reply" where
  "admin_popular data = PopularOk (sort_key (\<lambda>(t, c). (- c, t)) (count_by_title data))"

section \<open>Notions used by the properties\<close>

text \<open>
  A ranking is in order when, of any two entries, the earlier one has the higher score,
  or the same score and a title that is not greater.
\<close>

definition ranked :: "item list \<Rightarrow> bool" where
  "ranked xs =
     sorted_wrt (\<lambda>a b. score a > score b \<or> (score a = score b \<and> title a \<le> title b)) xs"

text \<open>The same order on the pairs of \<^verbatim>\<open>/admin/popular\<close>.\<close>

definition popular_ranked :: "(string \<times> int) list \<Rightarrow> bool" where
  "popular_ranked xs =
     sorted_wrt (\<lambda>a b. snd a > snd b \<or> (snd a = snd b \<and> fst a \<le> fst b)) xs"

text \<open>
  Lines 72 and 73: without a configured key the video search returns the empty list.
\<close>

definition no_videos :: "jval \<Rightarrow> video list" where
  "no_videos q = []"

text \<open>
  The stores the program can write: it starts from the empty document, and the only
  writers are \<^const>\<open>record_user_topics\<close> and \<^const>\<open>record_completion\<close>, the latter
  called with the default award of 10 (line 231).
\<close>

inductive reachable :: "store \<Rightarrow> bool" where
  empty: "reachable []"
| topics: "reachable data \<Longrightarrow> reachable (record_user_topics data email ts)"
| completion: "reachable data \<Longrightarrow> reachable (snd (record_completion data email ttl 10))"

text \<open>
  Lines 192 to 222: what \<^verbatim>\<open>/recommend\<close> does once it has the normalised email and
  the topic list.
\<close>

definition recommend_for ::
  "(jval \<Rightarrow> video list) \<Rightarrow> store \<Rightarrow> string \<Rightarrow> jval list \<Rightarrow> (py_error + reply) \<times> store" where
  "recommend_for yt data email ts =
     (let data' = (if email \<noteq> [] then record_user_topics data email ts else data);
          user_counts = (if email \<noteq> [] then get_user_topic_counts data' email else []);
          recs = score_resources_by_topics SAMPLE_RESOURCES ts;
          recs' = history_boost SAMPLE_RESOURCES user_counts recs;
          vids = (case ts of [] \<Rightarrow> [] | t # _ \<Rightarrow> yt t)
      in (Inr (RecommendOk recs' vids), data'))"

text \<open>How many users of the store have completed a title.\<close>

definition completions :: "store \<Rightarrow> string \<Rightarrow> int" where
  "completions data ttl = int (length (filter (\<lambda>eu. ttl \<in> set (completed (snd eu))) data))"

section \<open>Strings and normalisation\<close>

lemma is_space_lower_char: "is_space (lower_char c) = is_space c"
  by (auto simp: is_space_def lower_char_def Let_def)

lemma lower_char_idem: "lower_char (lower_char c) = lower_char c"
  by (auto simp: lower_char_def Let_def)

lemma lower_lower: "lower (lower s) = lower s"
  by (simp add: lower_def lower_char_idem)

lemma lower_Nil_iff: "lower s = [] \<longleftrightarrow> s = []"
  by (simp add: lower_def)

lemma dropWhile_space_lower: "dropWhile is_space (lower s) = lower (dropWhile is_space s)"
  by (induction s) (simp_all add: lower_def is_space_lower_char)

lemma strip_lower: "strip (lower s) = lower (strip s)"
proof -
  have "rev (lower s) = lower (rev s)" for s
    by (simp add: lower_def rev_map)
  then show ?thesis
    by (metis dropWhile_space_lower strip_def)
qed

lemma dropWhile_fix: "xs = [] \<or> \<not> P (hd xs) \<Longrightarrow> dropWhile P xs = xs"
  by (cases xs) auto

lemma dropWhile_head: "dropWhile P xs = [] \<or> \<not> P (hd (dropWhile P xs))"
  by (metis hd_dropWhile)

lemma dropWhile_rev_fix:
  assumes "dropWhile P t = t"
  shows "dropWhile P (rev (dropWhile P (rev t))) = rev (dropWhile P (rev t))"
proof -
  define u where "u = rev (dropWhile P (rev t))"
  define w where "w = rev (takeWhile P (rev t))"
  have t: "t = u @ w"
    unfolding u_def w_def by (metis rev_append rev_rev_ident takeWhile_dropWhile_id)
  show ?thesis
  proof (cases "\<exists>x\<in>set u. \<not> P x")
    case True
    then have "dropWhile P (u @ w) = dropWhile P u @ w"
      by (auto simp: dropWhile_append1)
    with assms t have "dropWhile P u @ w = u @ w" by simp
    then show ?thesis unfolding u_def by simp
  next
    case False
    have "u = []"
    proof (rule ccontr)
      assume "u \<noteq> []"
      then have "dropWhile P (rev t) \<noteq> []" unfolding u_def by simp
      then have "\<not> P (hd (dropWhile P (rev t)))" by (metis hd_dropWhile)
      moreover have "hd (dropWhile P (rev t)) \<in> set u"
        unfolding u_def using \<open>dropWhile P (rev t) \<noteq> []\<close> by simp
      ultimately show False using False by blast
    qed
    then have "rev (dropWhile P (rev t)) = []" unfolding u_def .
    then show ?thesis by (simp only: dropWhile.simps)
  qed
qed

lemma strip_strip: "strip (strip s) = strip s"
proof -
  have "dropWhile is_space (strip s) = strip s"
    unfolding strip_def by (rule dropWhile_rev_fix) (rule dropWhile_idem)
  then show ?thesis
    by (simp add: strip_def dropWhile_idem)
qed

lemma strip_norm: "strip (lower (strip s)) = lower (strip s)"
  by (simp add: strip_lower strip_strip)

lemma normalized_list_idem:
  "normalized_list (map JStr (normalized_list ts)) = normalized_list ts"
  by (induction ts rule: normalized_list.induct)
     (simp_all add: strip_norm lower_lower lower_Nil_iff)

lemma normalized_list_strs:
  "(\<forall>s\<in>set ys. strip s \<noteq> [] \<and> lower (strip s) = s) \<Longrightarrow> normalized_list (map JStr ys) = ys"
  by (induction ys) auto

lemma set_normalized_list:
  "set (normalized_list ts) = {lower (strip t) | t. JStr t \<in> set ts \<and> strip t \<noteq> []}"
  by (induction ts rule: normalized_list.induct) auto

lemma score_loop_eq:
  "score_loop nt rs acc =
     acc @ map (\<lambda>r. mk_item r (overlap nt r)) (filter (\<lambda>r. overlap nt r > 0) rs)"
  by (induction rs arbitrary: acc) (simp_all add: Let_def)

lemma overlap_pos_iff: "overlap nt r > 0 \<longleftrightarrow> tag_set r \<inter> nt \<noteq> {}"
  by (simp add: overlap_def tag_set_def card_gt_0_iff)

lemma score_resources_eq:
  "score_resources_by_topics rs ts =
     (if normalized_topics ts = {} then []
      else sort_key rank_key (map (\<lambda>r. mk_item r (overlap (normalized_topics ts) r))
             (filter (\<lambda>r. tag_set r \<inter> normalized_topics ts \<noteq> {}) rs)))"
  by (simp add: score_resources_by_topics_def Let_def score_loop_eq overlap_pos_iff)

lemma ranked_sort_key: "ranked (sort_key rank_key xs)"
proof -
  have "sorted (map rank_key (sort_key rank_key xs))" by (rule sorted_sort_key)
  then have "sorted_wrt (\<lambda>a b. rank_key a \<le> rank_key b) (sort_key rank_key xs)"
    by (simp add: sorted_wrt_map)
  then show ?thesis
    unfolding ranked_def by (rule sorted_wrt_mono_rel[rotated]) (auto simp: rank_key_def)
qed

lemma ranked_score: "ranked (score_resources_by_topics rs ts)"
  by (simp add: score_resources_eq ranked_sort_key) (simp add: ranked_def)

lemma normalized_topics_normal_form:
  "normalized_topics (map JStr (remdups (normalized_list ts))) = normalized_topics ts"
proof -
  have "\<forall>s\<in>set (remdups (normalized_list ts)). strip s \<noteq> [] \<and> lower (strip s) = s"
    by (auto simp: set_normalized_list strip_norm lower_lower lower_Nil_iff)
  then have "normalized_list (map JStr (remdups (normalized_list ts))) = remdups (normalized_list ts)"
    by (rule normalized_list_strs)
  then show ?thesis by (simp add: normalized_topics_def)
qed

lemma score_cong:
  "normalized_topics ts = normalized_topics ts' \<Longrightarrow>
   score_resources_by_topics rs ts = score_resources_by_topics rs ts'"
  by (simp add: score_resources_by_topics_def)

lemma mk_item_score_pos:
  "x \<in> set (score_resources_by_topics rs ts) \<Longrightarrow> score x > 0"
  by (auto simp: score_resources_eq mk_item_def overlap_pos_iff[symmetric] split: if_splits)

text \<open>
  C1. The scorer normalises the requested topics (trimmed, lowercased, blank and
  non-string entries dropped, duplicates merged in a set). With an empty normalised set
  it returns the empty list. Otherwise it returns exactly the resources whose lowercased
  tag set meets the normalised set, each as its title, description and link together with
  the size of the intersection as score; no returned score is zero.
\<close>

theorem scorer_overlap:
  "normalized_topics requested = {lower (strip t) | t. JStr t \<in> set requested \<and> strip t \<noteq> []} \<and>
   (normalized_topics requested = {} \<longrightarrow> score_resources_by_topics resources requested = []) \<and>
   (normalized_topics requested \<noteq> {} \<longrightarrow>
      mset (score_resources_by_topics resources requested) =
        image_mset
          (\<lambda>r. \<lparr>title = title r, description = description r, link = link r,
                 score = int (card (tag_set r \<inter> normalized_topics requested))\<rparr>)
          (filter_mset (\<lambda>r. tag_set r \<inter> normalized_topics requested \<noteq> {}) (mset resources))) \<and>
   (\<forall>x \<in> set (score_resources_by_topics resources requested). score x > 0)"
proof (intro conjI impI ballI)
  show "normalized_topics requested = {lower (strip t) | t. JStr t \<in> set requested \<and> strip t \<noteq> []}"
    by (simp add: normalized_topics_def set_normalized_list)
next
  assume "normalized_topics requested = {}"
  then show "score_resources_by_topics resources requested = []"
    by (simp add: score_resources_eq)
next
  assume "normalized_topics requested \<noteq> {}"
  then show "mset (score_resources_by_topics resources requested) =
        image_mset
          (\<lambda>r. \<lparr>title = title r, description = description r, link = link r,
                 score = int (card (tag_set r \<inter> normalized_topics requested))\<rparr>)
          (filter_mset (\<lambda>r. tag_set r \<inter> normalized_topics requested \<noteq> {}) (mset resources))"
    by (simp add: score_resources_eq mk_item_def overlap_def flip: mset_filter)
next
  fix x assume "x \<in> set (score_resources_by_topics resources requested)"
  then show "score x > 0" by (rule mk_item_score_pos)
qed

theorem scorer_overlap_witness:
  "normalized_topics [JStr '' Python '', JNum 3, JStr '' '', JStr ''WEB''] = {''python'', ''web''} \<and>
   normalized_topics [JNum 3, JStr '' ''] = {} \<and>
   score_resources_by_topics SAMPLE_RESOURCES [JNum 3, JStr '' ''] = [] \<and>
   mset (score_resources_by_topics SAMPLE_RESOURCES [JStr '' Python '', JNum 3, JStr '' '', JStr ''WEB'']) =
     {#\<lparr>title = ''Flask Basics'', description = ''Learn web development with Flask'',
         link = ''https://flask.palletsprojects.com/'', score = 2\<rparr>,
       \<lparr>title = ''Django Overview'', description = ''Batteries-included web framework'',
         link = ''https://www.djangoproject.com/'', score = 2\<rparr>,
       \<lparr>title = ''Pandas Intro'', description = ''Data analysis library'',
         link = ''https://pandas.pydata.org/'', score = 1\<rparr>#}"
proof -
  let ?ts = "[JStr '' Python '', JNum 3, JStr '' '', JStr ''WEB'']"
  have n1: "normalized_topics ?ts = {''python'', ''web''}" by code_simp
  have n2: "normalized_topics [JNum 3, JStr '' ''] = {}" by code_simp
  have ne: "normalized_topics ?ts \<noteq> {}" unfolding n1 by simp
  have s2: "score_resources_by_topics SAMPLE_RESOURCES [JNum 3, JStr '' ''] = []"
    using scorer_overlap[of "[JNum 3, JStr '' '']" SAMPLE_RESOURCES] n2 by blast
  have c: "int (card (set (map lower ts) \<inter> {''python'', ''web''})) =
      int (length (remdups (filter (\<lambda>t. t \<in> {''python'', ''web''}) (map lower ts))))" for ts
    by (simp add: length_remdups_card_conv Int_def conj_commute)
  have "mset (score_resources_by_topics SAMPLE_RESOURCES ?ts) =
        image_mset
          (\<lambda>r. \<lparr>title = title r, description = description r, link = link r,
                 score = int (card (tag_set r \<inter> normalized_topics ?ts))\<rparr>)
          (filter_mset (\<lambda>r. tag_set r \<inter> normalized_topics ?ts \<noteq> {}) (mset SAMPLE_RESOURCES))"
    using scorer_overlap[of ?ts SAMPLE_RESOURCES] ne by blast
  also have "\<dots> = {#\<lparr>title = ''Flask Basics'', description = ''Learn web development with Flask'',
         link = ''https://flask.palletsprojects.com/'', score = 2\<rparr>,
       \<lparr>title = ''Django Overview'', description = ''Batteries-included web framework'',
         link = ''https://www.djangoproject.com/'', score = 2\<rparr>,
       \<lparr>title = ''Pandas Intro'', description = ''Data analysis library'',
         link = ''https://pandas.pydata.org/'', score = 1\<rparr>#}"
    unfolding n1 by (simp add: SAMPLE_RESOURCES_def tag_set_def lower_def lower_char_def)
  finally show ?thesis using n1 n2 s2 by simp
qed

text \<open>
  C6. Scoring with a topic list equals scoring with its trimmed, lowercased,
  deduplicated form; scoring with \<^verbatim>\<open>["Python", " python "]\<close> equals scoring with
  \<^verbatim>\<open>["python"]\<close>.
\<close>

theorem normalization_idempotent:
  "score_resources_by_topics resources requested =
     score_resources_by_topics resources (map JStr (remdups (normalized_list requested))) \<and>
   score_resources_by_topics resources [JStr ''Python'', JStr '' python ''] =
     score_resources_by_topics resources [JStr ''python'']"
proof
  show "score_resources_by_topics resources requested =
     score_resources_by_topics resources (map JStr (remdups (normalized_list requested)))"
    by (rule score_cong) (simp add: normalized_topics_normal_form)
next
  have "normalized_topics [JStr ''Python'', JStr '' python ''] = normalized_topics [JStr ''python'']"
    by code_simp
  then show "score_resources_by_topics resources [JStr ''Python'', JStr '' python ''] =
     score_resources_by_topics resources [JStr ''python'']"
    by (rule score_cong)
qed

section \<open>The activity store: counts\<close>

lemma get_user_update:
  "get_user (AList.update e u data) e' = (if e' = e then u else get_user data e')"
  by (simp add: get_user_def update_conv')

lemma fold_append_topic:
  "fold append_topic ts u = u\<lparr>topics := topics u @ normalized_list ts\<rparr>"
  by (induction ts arbitrary: u rule: normalized_list.induct) simp_all

lemma get_user_record_user_topics:
  "get_user (record_user_topics data e ts) e' =
     (if e' = e then (get_user data e)\<lparr>topics := topics (get_user data e) @ normalized_list ts\<rparr>
      else get_user data e')"
  by (simp add: record_user_topics_def get_user_update fold_append_topic)

lemma get0_bump: "get0 (bump t c) t' = get0 c t' + (if t' = t then 1 else 0)"
  by (simp add: get0_def bump_def update_conv')

lemma keys_bump: "fst ` set (bump t c) = insert t (fst ` set c)"
  by (simp add: bump_def dom_update)

lemma distinct_bump: "distinct (map fst c) \<Longrightarrow> distinct (map fst (bump t c))"
  by (simp add: bump_def distinct_update)

lemma get0_fold_bump: "get0 (fold bump ts c) t = get0 c t + int (count_list ts t)"
  by (induction ts arbitrary: c) (simp_all add: get0_bump)

lemma keys_fold_bump: "fst ` set (fold bump ts c) = set ts \<union> fst ` set c"
  by (induction ts arbitrary: c) (auto simp: keys_bump)

lemma distinct_fold_bump: "distinct (map fst c) \<Longrightarrow> distinct (map fst (fold bump ts c))"
  by (induction ts arbitrary: c) (simp_all add: distinct_bump)

lemma get0_member: "distinct (map fst c) \<Longrightarrow> (t, n) \<in> set c \<Longrightarrow> get0 c t = n"
  by (simp add: get0_def)

lemma keys_topic_counts:
  "fst ` set (get_user_topic_counts data e) = set (topics (get_user data e))"
  by (simp add: get_user_topic_counts_def keys_fold_bump)

lemma topic_counts_member:
  "(t, n) \<in> set (get_user_topic_counts data e) \<longleftrightarrow>
     t \<in> set (topics (get_user data e)) \<and> n = int (count_list (topics (get_user data e)) t)"
proof -
  let ?c = "get_user_topic_counts data e"
  have d: "distinct (map fst ?c)"
    by (simp add: get_user_topic_counts_def distinct_fold_bump)
  have g: "get0 ?c t = int (count_list (topics (get_user data e)) t)"
    by (simp add: get_user_topic_counts_def get0_fold_bump) (simp add: get0_def)
  show ?thesis
  proof
    assume m: "(t, n) \<in> set ?c"
    then have "t \<in> fst ` set ?c" by force
    with m d g show "t \<in> set (topics (get_user data e)) \<and> n = int (count_list (topics (get_user data e)) t)"
      by (simp add: keys_topic_counts get0_member)
  next
    assume a: "t \<in> set (topics (get_user data e)) \<and> n = int (count_list (topics (get_user data e)) t)"
    then have "t \<in> fst ` set ?c" by (simp add: keys_topic_counts)
    then obtain m where m: "(t, m) \<in> set ?c" by auto
    with d have "get0 ?c t = m" by (simp add: get0_member)
    with g a m show "(t, n) \<in> set ?c" by simp
  qed
qed

lemma sort_key_head_least:
  "sort_key f xs = y # ys \<Longrightarrow> x \<in> set xs \<Longrightarrow> f y \<le> f x"
proof -
  assume a: "sort_key f xs = y # ys" and x: "x \<in> set xs"
  have "sorted (map f (sort_key f xs))" by (rule sorted_sort_key)
  with a have "\<forall>z\<in>set ys. f y \<le> f z" by simp
  moreover have "x \<in> set (y # ys)" using x a by (metis set_sort)
  ultimately show ?thesis by auto
qed

text \<open>
  C7. \<^verbatim>\<open>/next-topic\<close> answers "python" for a user without topic history; otherwise it
  answers a topic of the history whose number of occurrences is the lowest, and among
  those the alphabetically first.
\<close>

theorem next_topic_least:
  "args ''email'' = Some e \<Longrightarrow> lower (strip e) \<noteq> [] \<Longrightarrow>
   hist = topics (get_user data (lower (strip e))) \<Longrightarrow>
   (hist = [] \<longrightarrow> next_topic data args = Inr (NextOk ''python'')) \<and>
   (hist \<noteq> [] \<longrightarrow>
      (\<exists>t. next_topic data args = Inr (NextOk t) \<and> t \<in> set hist \<and>
           (\<forall>t' \<in> set hist. count_list hist t < count_list hist t' \<or>
                (count_list hist t = count_list hist t' \<and> t \<le> t'))))"
proof (intro conjI impI)
  assume a: "args ''email'' = Some e" "lower (strip e) \<noteq> []"
    and h: "hist = topics (get_user data (lower (strip e)))"
  let ?c = "get_user_topic_counts data (lower (strip e))"
  {
    assume "hist = []"
    with h have "?c = []" by (simp add: get_user_topic_counts_def)
    with a show "next_topic data args = Inr (NextOk ''python'')"
      by (simp add: next_topic_def)
  }
  {
    assume ne: "hist \<noteq> []"
    with h have cne: "?c \<noteq> []" using keys_topic_counts[of data "lower (strip e)"] by auto
    let ?s = "sort_key (\<lambda>kv. (snd kv, fst kv)) ?c"
    from cne have "?s \<noteq> []" by (metis length_sort length_0_conv)
    then obtain kv rest where s: "?s = kv # rest" by (cases ?s) auto
    have r: "next_topic data args = Inr (NextOk (fst kv))"
      using a cne s by (simp add: next_topic_def)
    have "kv \<in> set ?s" using s by simp
    then have kvm: "(fst kv, snd kv) \<in> set ?c" by simp
    then have kv: "fst kv \<in> set hist" "snd kv = int (count_list hist (fst kv))"
      using h topic_counts_member[of "fst kv" "snd kv" data "lower (strip e)"] by simp_all
    have "\<forall>t' \<in> set hist. count_list hist (fst kv) < count_list hist t' \<or>
                (count_list hist (fst kv) = count_list hist t' \<and> fst kv \<le> t')"
    proof
      fix t' assume "t' \<in> set hist"
      then have "(t', int (count_list hist t')) \<in> set ?c"
        using h by (simp add: topic_counts_member)
      from sort_key_head_least[OF s this] kv(2)
      show "count_list hist (fst kv) < count_list hist t' \<or>
                (count_list hist (fst kv) = count_list hist t' \<and> fst kv \<le> t')"
        by auto
    qed
    with r kv(1)
    show "\<exists>t. next_topic data args = Inr (NextOk t) \<and> t \<in> set hist \<and>
           (\<forall>t' \<in> set hist. count_list hist t < count_list hist t' \<or>
                (count_list hist t = count_list hist t' \<and> t \<le> t'))"
      by blast
  }
qed


theorem next_topic_least_witness:
  "next_topic
     [(''a@b.com'', \<lparr>topics = [''python'', ''web'', ''python''], completed = [], points = 0\<rparr>)]
     (map_of [(''email'', '' A@b.com '')]) = Inr (NextOk ''web'') \<and>
   next_topic [] (map_of [(''email'', '' A@b.com '')]) = Inr (NextOk ''python'')"
proof -
  let ?data = "[(''a@b.com'', \<lparr>topics = [''python'', ''web'', ''python''], completed = [], points = 0\<rparr>)]"
  let ?args = "map_of [(''email'', '' A@b.com '')]"
  let ?hist = "[''python'', ''web'', ''python'']"
  have a: "?args ''email'' = Some '' A@b.com ''" by simp
  have b: "lower (strip '' A@b.com '') = ''a@b.com''" by code_simp
  have ne: "lower (strip '' A@b.com '') \<noteq> []" unfolding b by simp
  have h: "?hist = topics (get_user ?data (lower (strip '' A@b.com '')))"
    unfolding b by (simp add: get_user_def)
  have h0: "[] = topics (get_user [] (lower (strip '' A@b.com '')))"
    by (simp add: get_user_def new_user_def)
  from next_topic_least[of ?args "'' A@b.com ''" ?hist ?data, OF a ne h] obtain t where
    t: "next_topic ?data ?args = Inr (NextOk t)" "t \<in> set ?hist"
       "\<forall>t' \<in> set ?hist. count_list ?hist t < count_list ?hist t' \<or>
                (count_list ?hist t = count_list ?hist t' \<and> t \<le> t')"
    by blast
  from t(3) have "count_list ?hist t < count_list ?hist ''web'' \<or>
                (count_list ?hist t = count_list ?hist ''web'' \<and> t \<le> ''web'')"
    by simp
  with t(2) have "t = ''web''" by auto
  with t(1) next_topic_least[of ?args "'' A@b.com ''" "[]" "[]", OF a ne h0] show ?thesis by simp
qed

section \<open>Completions and points\<close>

lemma record_completion_user:
  "fst (record_completion data email ttl award) =
     (let u = get_user data email
      in if ttl \<in> set (completed u)
         then u\<lparr>completed := sorted_list_of_set (set (completed u))\<rparr>
         else u\<lparr>points := points u + award,
                completed := sorted_list_of_set (insert ttl (set (completed u)))\<rparr>)"
  by (simp add: record_completion_def Let_def)

lemma record_completion_store:
  "snd (record_completion data email ttl award) =
     AList.update email (fst (record_completion data email ttl award)) data"
  by (simp add: record_completion_def Let_def)

lemma get_user_record_completion:
  "get_user (snd (record_completion data e ttl award)) e' =
     (if e' = e then fst (record_completion data e ttl award) else get_user data e')"
  by (simp add: record_completion_store get_user_update)

lemma completed_record_completion:
  "set (completed (fst (record_completion data email ttl award))) =
     insert ttl (set (completed (get_user data email)))"
  by (auto simp: record_completion_user Let_def set_insort_key)

lemma sorted_record_completion:
  "sorted (completed (fst (record_completion data email ttl award))) \<and>
   distinct (completed (fst (record_completion data email ttl award)))"
  by (simp add: record_completion_user Let_def sorted_insort distinct_insort)

lemma points_record_completion:
  "points (fst (record_completion data email ttl award)) =
     points (get_user data email) +
       (if ttl \<in> set (completed (get_user data email)) then 0 else award)"
  by (simp add: record_completion_user Let_def)

lemma record_completion_twice:
  assumes "record_completion data email ttl award = (u1, data1)"
  shows "record_completion data1 email ttl award = (u1, data1)"
proof -
  from assms have u1: "u1 = fst (record_completion data email ttl award)"
    and d1: "data1 = AList.update email u1 data"
    using record_completion_store[of data email ttl award] by simp_all
  have g: "get_user data1 email = u1" by (simp add: d1 get_user_update)
  have m: "ttl \<in> set (completed u1)" by (simp add: u1 completed_record_completion)
  have "sorted (completed u1) \<and> distinct (completed u1)"
    unfolding u1 by (rule sorted_record_completion)
  then have s: "sorted_list_of_set (set (completed u1)) = completed u1"
    by (simp add: sorted_list_of_set.idem_if_sorted_distinct)
  have f: "fst (record_completion data1 email ttl award) = u1"
    by (simp add: record_completion_user g m s)
  have "snd (record_completion data1 email ttl award) = AList.update email u1 data1"
    unfolding record_completion_store f ..
  then have "snd (record_completion data1 email ttl award) = data1"
    by (simp add: d1)
  with f show ?thesis by (metis prod.collapse)
qed

lemma complete_ok:
  assumes "str_field d ''email'' = Inr em" "str_field d ''title'' = Inr tv"
    "lower (strip em) \<noteq> []" "strip tv \<noteq> []"
  shows "complete data d =
     (Inr (CompleteOk (points (fst (record_completion data (lower (strip em)) (strip tv) 10)))
                      (completed (fst (record_completion data (lower (strip em)) (strip tv) 10)))),
      snd (record_completion data (lower (strip em)) (strip tv) 10))"
  using assms by (simp add: complete_def Let_def split: prod.splits)

lemma record_completion_saved:
  "map_of (snd (record_completion data email ttl award)) =
     (map_of data)(email \<mapsto> fst (record_completion data email ttl award))"
  by (simp add: record_completion_store update_conv')

lemma topics_record_completion:
  "topics (fst (record_completion data email ttl award)) = topics (get_user data email)"
  by (simp add: record_completion_user Let_def)

text \<open>
  C3. A completion is idempotent per email and title. The first call for a title adds it
  to the completed set and adds the award to the points, and the store then holds that
  record for the email, the other users as they were; a repeated call returns the same
  user record and leaves the store as it is; the returned completed list is sorted.
  \<^verbatim>\<open>/complete\<close> answers the points and the completed list of the record it has
  stored, and answers the same, on the same store, when posted again. Posting
  \<^verbatim>\<open>{email: "a@b.com", title: "Flask Basics"}\<close> twice, for a user not yet in the
  store, answers 10 points and the one title both times.
\<close>

theorem completion_idempotent:
  "(record_completion data email ttl award = (u1, data1) \<longrightarrow>
      record_completion data1 email ttl award = (u1, data1) \<and>
      map_of data1 email = Some u1 \<and>
      (\<forall>e. e \<noteq> email \<longrightarrow> map_of data1 e = map_of data e) \<and>
      topics u1 = topics (get_user data email) \<and>
      sorted (completed u1) \<and> distinct (completed u1) \<and>
      set (completed u1) = insert ttl (set (completed (get_user data email))) \<and>
      (ttl \<notin> set (completed (get_user data email)) \<longrightarrow>
         points u1 = points (get_user data email) + award) \<and>
      (ttl \<in> set (completed (get_user data email)) \<longrightarrow>
         points u1 = points (get_user data email))) \<and>
   (complete data d = (Inr (CompleteOk p c), data1) \<longrightarrow>
      complete data1 d = (Inr (CompleteOk p c), data1) \<and>
      (\<exists>em tv u.
         str_field d ''email'' = Inr em \<and> str_field d ''title'' = Inr tv \<and>
         map_of data1 (lower (strip em)) = Some u \<and> points u = p \<and> completed u = c \<and>
         (\<forall>e. e \<noteq> lower (strip em) \<longrightarrow> map_of data1 e = map_of data e) \<and>
         sorted c \<and> set c = insert (strip tv) (set (completed (get_user data (lower (strip em))))) \<and>
         p = points (get_user data (lower (strip em))) +
               (if strip tv \<in> set (completed (get_user data (lower (strip em)))) then 0 else 10))) \<and>
   (map_of data ''a@b.com'' = None \<longrightarrow>
      (\<exists>data'.
         complete data (map_of [(''email'', JStr ''a@b.com''), (''title'', JStr ''Flask Basics'')]) =
           (Inr (CompleteOk 10 [''Flask Basics'']), data') \<and>
         complete data' (map_of [(''email'', JStr ''a@b.com''), (''title'', JStr ''Flask Basics'')]) =
           (Inr (CompleteOk 10 [''Flask Basics'']), data') \<and>
         map_of data' ''a@b.com'' =
           Some \<lparr>topics = [], completed = [''Flask Basics''], points = 10\<rparr>))"
proof (intro conjI impI)
  assume a: "record_completion data email ttl award = (u1, data1)"
  then have u1: "u1 = fst (record_completion data email ttl award)"
    and d1: "data1 = snd (record_completion data email ttl award)" by simp_all
  show "record_completion data1 email ttl award = (u1, data1)"
    using a by (rule record_completion_twice)
  show "map_of data1 email = Some u1"
    unfolding u1 d1 by (simp add: record_completion_saved)
  show "\<forall>e. e \<noteq> email \<longrightarrow> map_of data1 e = map_of data e"
    unfolding d1 by (simp add: record_completion_saved)
  show "topics u1 = topics (get_user data email)"
    unfolding u1 by (rule topics_record_completion)
  show "sorted (completed u1)" "distinct (completed u1)"
    unfolding u1 using sorted_record_completion by blast+
  show "set (completed u1) = insert ttl (set (completed (get_user data email)))"
    unfolding u1 by (rule completed_record_completion)
  {
    assume "ttl \<notin> set (completed (get_user data email))"
    then show "points u1 = points (get_user data email) + award"
      unfolding u1 by (simp add: points_record_completion)
  }
  {
    assume "ttl \<in> set (completed (get_user data email))"
    then show "points u1 = points (get_user data email)"
      unfolding u1 by (simp add: points_record_completion)
  }
next
  assume a: "complete data d = (Inr (CompleteOk p c), data1)"
  then obtain em tv where f: "str_field d ''email'' = Inr em" "str_field d ''title'' = Inr tv"
    by (auto simp: complete_def split: sum.splits)
  with a have ne: "lower (strip em) \<noteq> []" "strip tv \<noteq> []"
    by (auto simp: complete_def Let_def split: if_splits)
  let ?e = "lower (strip em)"
  let ?r = "record_completion data ?e (strip tv) 10"
  from a complete_ok[OF f ne, of data]
  have r: "?r = (fst ?r, data1)" "p = points (fst ?r)" "c = completed (fst ?r)"
    and d1: "data1 = snd ?r"
    by (simp_all add: prod_eq_iff)
  from record_completion_twice[OF r(1)] complete_ok[OF f ne, of data1] r(2,3)
  show "complete data1 d = (Inr (CompleteOk p c), data1)" by simp
  have m: "map_of data1 ?e = Some (fst ?r)"
    unfolding d1 by (simp add: record_completion_saved)
  have o: "\<forall>e. e \<noteq> ?e \<longrightarrow> map_of data1 e = map_of data e"
    unfolding d1 by (simp add: record_completion_saved)
  have sc: "sorted c" unfolding r(3) using sorted_record_completion by blast
  have st: "set c = insert (strip tv) (set (completed (get_user data ?e)))"
    unfolding r(3) by (rule completed_record_completion)
  have pt: "p = points (get_user data ?e) +
               (if strip tv \<in> set (completed (get_user data ?e)) then 0 else 10)"
    unfolding r(2) by (rule points_record_completion)
  from f m r(2,3) o sc st pt
  show "\<exists>em tv u.
         str_field d ''email'' = Inr em \<and> str_field d ''title'' = Inr tv \<and>
         map_of data1 (lower (strip em)) = Some u \<and> points u = p \<and> completed u = c \<and>
         (\<forall>e. e \<noteq> lower (strip em) \<longrightarrow> map_of data1 e = map_of data e) \<and>
         sorted c \<and> set c = insert (strip tv) (set (completed (get_user data (lower (strip em))))) \<and>
         p = points (get_user data (lower (strip em))) +
               (if strip tv \<in> set (completed (get_user data (lower (strip em)))) then 0 else 10)"
    by blast
next
  let ?d = "map_of [(''email'', JStr ''a@b.com''), (''title'', JStr ''Flask Basics'')]"
  assume n: "map_of data ''a@b.com'' = None"
  have f: "str_field ?d ''email'' = Inr ''a@b.com''" "str_field ?d ''title'' = Inr ''Flask Basics''"
    by (simp_all add: str_field_def)
  have s: "lower (strip ''a@b.com'') = ''a@b.com''" "strip ''Flask Basics'' = ''Flask Basics''"
    by code_simp+
  have ne: "lower (strip ''a@b.com'') \<noteq> []" "strip ''Flask Basics'' \<noteq> []"
    unfolding s by simp_all
  let ?r = "record_completion data ''a@b.com'' ''Flask Basics'' 10"
  have g: "get_user data ''a@b.com'' = new_user" using n by (simp add: get_user_def)
  have u: "fst ?r = \<lparr>topics = [], completed = [''Flask Basics''], points = 10\<rparr>"
    by (simp add: record_completion_user g new_user_def)
  have c1: "complete data ?d = (Inr (CompleteOk 10 [''Flask Basics'']), snd ?r)"
    using complete_ok[OF f ne, of data]
    unfolding s by (simp add: u)
  have "record_completion (snd ?r) ''a@b.com'' ''Flask Basics'' 10 = (fst ?r, snd ?r)"
    by (rule record_completion_twice) simp
  then have c2: "complete (snd ?r) ?d = (Inr (CompleteOk 10 [''Flask Basics'']), snd ?r)"
    using complete_ok[OF f ne, of "snd ?r"]
    unfolding s by (simp add: u)
  have c3: "map_of (snd ?r) ''a@b.com'' =
      Some \<lparr>topics = [], completed = [''Flask Basics''], points = 10\<rparr>"
    by (simp add: record_completion_saved u)
  from c1 c2 c3
  show "\<exists>data'. complete data ?d = (Inr (CompleteOk 10 [''Flask Basics'']), data') \<and>
         complete data' ?d = (Inr (CompleteOk 10 [''Flask Basics'']), data') \<and>
         map_of data' ''a@b.com'' =
           Some \<lparr>topics = [], completed = [''Flask Basics''], points = 10\<rparr>"
    by blast
qed

theorem completion_idempotent_witness:
  "record_completion [] ''a@b.com'' ''Flask Basics'' 10 =
     (\<lparr>topics = [], completed = [''Flask Basics''], points = 10\<rparr>,
      [(''a@b.com'', \<lparr>topics = [], completed = [''Flask Basics''], points = 10\<rparr>)]) \<and>
   record_completion [(''a@b.com'', \<lparr>topics = [], completed = [''Flask Basics''], points = 10\<rparr>)]
       ''a@b.com'' ''Flask Basics'' 10 =
     (\<lparr>topics = [], completed = [''Flask Basics''], points = 10\<rparr>,
      [(''a@b.com'', \<lparr>topics = [], completed = [''Flask Basics''], points = 10\<rparr>)]) \<and>
   complete [] (map_of [(''email'', JStr ''a@b.com''), (''title'', JStr ''Flask Basics'')]) =
     (Inr (CompleteOk 10 [''Flask Basics'']),
      [(''a@b.com'', \<lparr>topics = [], completed = [''Flask Basics''], points = 10\<rparr>)]) \<and>
   complete [(''a@b.com'', \<lparr>topics = [], completed = [''Flask Basics''], points = 10\<rparr>)]
       (map_of [(''email'', JStr ''a@b.com''), (''title'', JStr ''Flask Basics'')]) =
     (Inr (CompleteOk 10 [''Flask Basics'']),
      [(''a@b.com'', \<lparr>topics = [], completed = [''Flask Basics''], points = 10\<rparr>)]) \<and>
   complete
       [(''x@y.org'', \<lparr>topics = [], completed = [''React Docs''], points = 10\<rparr>),
        (''a@b.com'', \<lparr>topics = [''web''], completed = [''Pandas Intro''], points = 10\<rparr>)]
       (map_of [(''email'', JStr '' A@B.com''), (''title'', JStr ''Flask Basics '')]) =
     (Inr (CompleteOk 20 [''Flask Basics'', ''Pandas Intro'']),
      [(''x@y.org'', \<lparr>topics = [], completed = [''React Docs''], points = 10\<rparr>),
       (''a@b.com'', \<lparr>topics = [''web''], completed = [''Flask Basics'', ''Pandas Intro''],
                       points = 20\<rparr>)]) \<and>
   complete
       [(''x@y.org'', \<lparr>topics = [], completed = [''React Docs''], points = 10\<rparr>),
        (''a@b.com'', \<lparr>topics = [''web''], completed = [''Flask Basics'', ''Pandas Intro''],
                        points = 20\<rparr>)]
       (map_of [(''email'', JStr '' A@B.com''), (''title'', JStr ''Flask Basics '')]) =
     (Inr (CompleteOk 20 [''Flask Basics'', ''Pandas Intro'']),
      [(''x@y.org'', \<lparr>topics = [], completed = [''React Docs''], points = 10\<rparr>),
       (''a@b.com'', \<lparr>topics = [''web''], completed = [''Flask Basics'', ''Pandas Intro''],
                       points = 20\<rparr>)])"
proof -
  let ?u = "\<lparr>topics = [], completed = [''Flask Basics''], points = 10\<rparr>"
  let ?d = "map_of [(''email'', JStr ''a@b.com''), (''title'', JStr ''Flask Basics'')]"
  let ?s0 = "[(''x@y.org'', \<lparr>topics = [], completed = [''React Docs''], points = 10\<rparr>),
        (''a@b.com'', \<lparr>topics = [''web''], completed = [''Pandas Intro''], points = 10\<rparr>)]"
  let ?s1 = "[(''x@y.org'', \<lparr>topics = [], completed = [''React Docs''], points = 10\<rparr>),
        (''a@b.com'', \<lparr>topics = [''web''], completed = [''Flask Basics'', ''Pandas Intro''],
                        points = 20\<rparr>)]"
  let ?d2 = "map_of [(''email'', JStr '' A@B.com''), (''title'', JStr ''Flask Basics '')]"
  have h1: "record_completion [] ''a@b.com'' ''Flask Basics'' 10 = (?u, [(''a@b.com'', ?u)])"
    by code_simp
  have h2: "complete [] ?d = (Inr (CompleteOk 10 [''Flask Basics'']), [(''a@b.com'', ?u)])"
    by code_simp
  have h3: "complete ?s0 ?d2 = (Inr (CompleteOk 20 [''Flask Basics'', ''Pandas Intro'']), ?s1)"
    by code_simp
  from completion_idempotent[where data = "[]" and email = "''a@b.com''" and ttl = "''Flask Basics''"
      and award = 10 and ?u1.0 = ?u and ?data1.0 = "[(''a@b.com'', ?u)]" and d = ?d and p = 10
      and c = "[''Flask Basics'']"] h1 h2
  have a: "record_completion [(''a@b.com'', ?u)] ''a@b.com'' ''Flask Basics'' 10 =
      (?u, [(''a@b.com'', ?u)])"
    "complete [(''a@b.com'', ?u)] ?d = (Inr (CompleteOk 10 [''Flask Basics'']), [(''a@b.com'', ?u)])"
    by blast+
  from completion_idempotent[where data = ?s0 and d = ?d2 and p = 20
      and c = "[''Flask Basics'', ''Pandas Intro'']" and ?data1.0 = ?s1] h3
  have b: "complete ?s1 ?d2 = (Inr (CompleteOk 20 [''Flask Basics'', ''Pandas Intro'']), ?s1)"
    by blast
  from h1 h2 h3 a b show ?thesis by blast
qed

lemma reachable_inv:
  "reachable data \<Longrightarrow>
   distinct (map fst data) \<and>
   (\<forall>e. distinct (completed (get_user data e)) \<and>
        points (get_user data e) = 10 * int (card (set (completed (get_user data e)))))"
proof (induction rule: reachable.induct)
  case empty
  show ?case by (simp add: get_user_def new_user_def)
next
  case (topics data email ts)
  then show ?case
    by (simp add: get_user_record_user_topics) (simp add: record_user_topics_def distinct_update)
next
  case (completion data email ttl)
  have "distinct (map fst (snd (record_completion data email ttl 10)))"
    using completion.IH by (simp add: record_completion_store distinct_update)
  moreover have "distinct (completed (fst (record_completion data email ttl 10)))"
    using sorted_record_completion by blast
  moreover have "points (fst (record_completion data email ttl 10)) =
      10 * int (card (set (completed (fst (record_completion data email ttl 10)))))"
    using completion.IH
    by (simp add: points_record_completion completed_record_completion insert_absorb)
  ultimately show ?case
    using completion.IH by (simp add: get_user_record_completion)
qed

lemma get_user_member:
  "distinct (map fst data) \<Longrightarrow> (e, u) \<in> set data \<Longrightarrow> get_user data e = u"
  by (simp add: get_user_def)

lemma reachable_completed_distinct:
  "reachable data \<Longrightarrow> \<forall>eu\<in>set data. distinct (completed (snd eu))"
proof
  fix eu assume r: "reachable data" and m: "eu \<in> set data"
  from reachable_inv[OF r] have d: "distinct (map fst data)"
    and i: "distinct (completed (get_user data (fst eu)))" by blast+
  from m have "(fst eu, snd eu) \<in> set data" by simp
  with d have "get_user data (fst eu) = snd eu" by (rule get_user_member)
  with i show "distinct (completed (snd eu))" by simp
qed

text \<open>
  C4. In every store the program can reach from the empty one, each user's points are
  10 times the number of distinct completed titles, hence not negative. Recording topics
  leaves the points as they are; recording a completion adds 10 when the title is new for
  that user and nothing otherwise, so the points never decrease.
\<close>

theorem points_invariant:
  "reachable data \<Longrightarrow>
   (\<forall>u. map_of data email = Some u \<longrightarrow>
        points u = 10 * int (card (set (completed u))) \<and> 0 \<le> points u) \<and>
   points (get_user data email) = 10 * int (card (set (completed (get_user data email)))) \<and>
   points (get_user (record_user_topics data e ts) email) = points (get_user data email) \<and>
   points (get_user (snd (record_completion data e ttl 10)) email) =
     points (get_user data email) +
       (if e = email \<and> ttl \<notin> set (completed (get_user data email)) then 10 else 0)"
proof (intro conjI allI impI)
  assume r: "reachable data"
  from reachable_inv[OF r]
  show p: "points (get_user data email) = 10 * int (card (set (completed (get_user data email))))"
    by blast
  show "points (get_user (record_user_topics data e ts) email) = points (get_user data email)"
    by (simp add: get_user_record_user_topics)
  show "points (get_user (snd (record_completion data e ttl 10)) email) =
     points (get_user data email) +
       (if e = email \<and> ttl \<notin> set (completed (get_user data email)) then 10 else 0)"
    by (simp add: get_user_record_completion points_record_completion)
  fix u assume "map_of data email = Some u"
  then have "get_user data email = u" by (simp add: get_user_def)
  with p show "points u = 10 * int (card (set (completed u)))" by simp
  then show "0 \<le> points u" by simp
qed

theorem points_invariant_witness:
  "reachable (snd (record_completion (record_user_topics [] ''a@b.com'' [JStr ''web''])
                     ''a@b.com'' ''Flask Basics'' 10)) \<and>
   map_of (snd (record_completion (record_user_topics [] ''a@b.com'' [JStr ''web''])
                     ''a@b.com'' ''Flask Basics'' 10)) ''a@b.com'' =
     Some \<lparr>topics = [''web''], completed = [''Flask Basics''], points = 10\<rparr> \<and>
   points \<lparr>topics = [''web''], completed = [''Flask Basics''], points = 10\<rparr> =
     10 * int (card (set (completed \<lparr>topics = [''web''], completed = [''Flask Basics''], points = 10\<rparr>)))"
proof -
  let ?data = "snd (record_completion (record_user_topics [] ''a@b.com'' [JStr ''web''])
                     ''a@b.com'' ''Flask Basics'' 10)"
  let ?u = "\<lparr>topics = [''web''], completed = [''Flask Basics''], points = 10\<rparr>"
  have r: "reachable ?data"
    by (intro reachable.intros)
  have m: "map_of ?data ''a@b.com'' = Some ?u" by code_simp
  from points_invariant[OF r, of "''a@b.com''"] m
  have "points ?u = 10 * int (card (set (completed ?u)))" by blast
  with r m show ?thesis by blast
qed

section \<open>Popular resources\<close>

lemma fold_users_get0:
  "get0 (fold (\<lambda>(_, u) acc. fold bump (completed u) acc) data acc) t =
     get0 acc t + (\<Sum>eu\<leftarrow>data. int (count_list (completed (snd eu)) t))"
  by (induction data arbitrary: acc) (auto simp: get0_fold_bump)

lemma fold_users_keys:
  "fst ` set (fold (\<lambda>(_, u) acc. fold bump (completed u) acc) data acc) =
     fst ` set acc \<union> (\<Union>eu\<in>set data. set (completed (snd eu)))"
  by (induction data arbitrary: acc) (simp_all add: keys_fold_bump case_prod_beta Un_ac)

lemma fold_users_distinct:
  "distinct (map fst acc) \<Longrightarrow>
   distinct (map fst (fold (\<lambda>(_, u) acc. fold bump (completed u) acc) data acc))"
  by (induction data arbitrary: acc) (auto simp: distinct_fold_bump)

lemma count_distinct: "distinct xs \<Longrightarrow> count_list xs t = (if t \<in> set xs then 1 else 0)"
  by (induction xs) auto

lemma sum_completions:
  "\<forall>eu\<in>set data. distinct (completed (snd eu)) \<Longrightarrow>
   (\<Sum>eu\<leftarrow>data. int (count_list (completed (snd eu)) t)) = completions data t"
  by (induction data) (auto simp: completions_def count_distinct)

lemma completions_pos_iff:
  "completions data t > 0 \<longleftrightarrow> (\<exists>eu\<in>set data. t \<in> set (completed (snd eu)))"
  by (auto simp: completions_def filter_empty_conv)

lemma count_by_title_member:
  assumes "\<forall>eu\<in>set data. distinct (completed (snd eu))"
  shows "(t, c) \<in> set (count_by_title data) \<longleftrightarrow> c = completions data t \<and> c > 0"
proof -
  let ?c = "count_by_title data"
  have d: "distinct (map fst ?c)"
    unfolding count_by_title_def by (rule fold_users_distinct) simp
  have g: "get0 ?c t = completions data t"
    unfolding count_by_title_def fold_users_get0 sum_completions[OF assms]
    by (simp add: get0_def)
  have k: "t \<in> fst ` set ?c \<longleftrightarrow> completions data t > 0"
    unfolding count_by_title_def fold_users_keys completions_pos_iff by simp
  show ?thesis
  proof
    assume m: "(t, c) \<in> set ?c"
    then have "t \<in> fst ` set ?c" by force
    with m d g k show "c = completions data t \<and> c > 0"
      by (simp add: get0_member)
  next
    assume a: "c = completions data t \<and> c > 0"
    with k obtain m where m: "(t, m) \<in> set ?c" by auto
    with d have "get0 ?c t = m" by (simp add: get0_member)
    with g a m show "(t, c) \<in> set ?c" by simp
  qed
qed

lemma popular_ranked_sort_key: "popular_ranked (sort_key (\<lambda>(t, c). (- c, t)) xs)"
proof -
  let ?k = "\<lambda>(t::string, c::int). (- c, t)"
  have "sorted (map ?k (sort_key ?k xs))" by (rule sorted_sort_key)
  then have "sorted_wrt (\<lambda>a b. ?k a \<le> ?k b) (sort_key ?k xs)"
    by (simp add: sorted_wrt_map)
  then show ?thesis
    unfolding popular_ranked_def
    by (rule sorted_wrt_mono_rel[rotated]) (auto simp: case_prod_beta)
qed

text \<open>
  C8. \<^verbatim>\<open>/admin/popular\<close> lists each title that some user has completed exactly once,
  paired with the number of users that completed it, in descending order of that number
  and, at equal numbers, ascending order of title. Completed lists hold no duplicates in
  any store the program writes (\<open>reachable_completed_distinct\<close>). After two different
  users complete "Flask Basics" the list is that title with count 2.
\<close>

theorem popular_counts:
  "(\<forall>eu\<in>set data. distinct (completed (snd eu))) \<longrightarrow>
     (\<exists>pop. admin_popular data = PopularOk pop \<and> popular_ranked pop \<and> distinct (map fst pop) \<and>
        (\<forall>t c. (t, c) \<in> set pop \<longleftrightarrow> c = completions data t \<and> c > 0)) \<and>
   (e1 \<noteq> e2 \<longrightarrow>
      admin_popular
        (snd (record_completion (snd (record_completion [] e1 ''Flask Basics'' 10))
                e2 ''Flask Basics'' 10)) = PopularOk [(''Flask Basics'', 2)])"
proof (intro conjI impI)
  assume a: "\<forall>eu\<in>set data. distinct (completed (snd eu))"
  let ?pop = "sort_key (\<lambda>(t, c). (- c, t)) (count_by_title data)"
  have "distinct (map fst (count_by_title data))"
    unfolding count_by_title_def by (rule fold_users_distinct) simp
  then have "distinct (map fst ?pop)"
    by (metis distinct_map distinct_sort set_sort)
  moreover have "\<forall>t c. (t, c) \<in> set ?pop \<longleftrightarrow> c = completions data t \<and> c > 0"
    using count_by_title_member[OF a] by simp
  ultimately show "\<exists>pop. admin_popular data = PopularOk pop \<and> popular_ranked pop \<and>
      distinct (map fst pop) \<and> (\<forall>t c. (t, c) \<in> set pop \<longleftrightarrow> c = completions data t \<and> c > 0)"
    using popular_ranked_sort_key by (auto simp: admin_popular_def)
next
  assume "e1 \<noteq> e2"
  then show "admin_popular
        (snd (record_completion (snd (record_completion [] e1 ''Flask Basics'' 10))
                e2 ''Flask Basics'' 10)) = PopularOk [(''Flask Basics'', 2)]"
    by (simp add: admin_popular_def count_by_title_def record_completion_def Let_def
        get_user_def new_user_def bump_def get0_def)
qed

theorem popular_counts_witness:
  "admin_popular
     (snd (record_completion (snd (record_completion [] ''a@b.com'' ''Flask Basics'' 10))
             ''c@d.com'' ''Flask Basics'' 10)) = PopularOk [(''Flask Basics'', 2)] \<and>
   (\<exists>pop. admin_popular
       [(''a@b.com'', \<lparr>topics = [], completed = [''Django Overview'', ''Flask Basics''], points = 20\<rparr>),
        (''c@d.com'', \<lparr>topics = [], completed = [''Flask Basics''], points = 10\<rparr>)] = PopularOk pop \<and>
      popular_ranked pop \<and> (''Flask Basics'', 2) \<in> set pop)"
proof -
  let ?data = "[(''a@b.com'', \<lparr>topics = [], completed = [''Django Overview'', ''Flask Basics''], points = 20\<rparr>),
        (''c@d.com'', \<lparr>topics = [], completed = [''Flask Basics''], points = 10\<rparr>)]"
  have ne: "''a@b.com'' \<noteq> ''c@d.com''" by simp
  have d: "\<forall>eu\<in>set ?data. distinct (completed (snd eu))" by simp
  have c: "completions ?data ''Flask Basics'' = 2" by (simp add: completions_def)
  from popular_counts[of ?data "''a@b.com''" "''c@d.com''"] ne d c
  show ?thesis by auto
qed

section \<open>The history boost\<close>

lemma title_mk_item [simp]: "title (mk_item r s) = title r"
  by (simp add: mk_item_def)

lemma score_mk_item [simp]: "score (mk_item r s) = s"
  by (simp add: mk_item_def)

lemma mk_item_score_update [simp]: "(mk_item r s)\<lparr>score := s'\<rparr> = mk_item r s'"
  by (simp add: mk_item_def)

lemma find_unique:
  "distinct (map k xs) \<Longrightarrow> x \<in> set xs \<Longrightarrow> find (\<lambda>y. k y = k x) xs = Some x"
  by (induction xs) (auto simp: image_iff)

lemma distinct_map_sort_key:
  "distinct (map k xs) \<Longrightarrow> distinct (map k (sort_key f xs))"
proof -
  assume "distinct (map k xs)"
  moreover have "mset (map k (sort_key f xs)) = mset (map k xs)" by simp
  ultimately show ?thesis by (metis mset_eq_imp_distinct_iff)
qed

lemma find_in_scored:
  assumes "distinct (map title rs)" "r \<in> set rs"
  shows "find (\<lambda>x. title x = title r)
           (sort_key rank_key (map (\<lambda>r. mk_item r (f r)) (filter Q rs))) =
         (if Q r then Some (mk_item r (f r)) else None)"
proof -
  let ?ys = "map (\<lambda>r. mk_item r (f r)) (filter Q rs)"
  have t: "map title ?ys = map title (filter Q rs)" by (simp add: comp_def)
  have d: "distinct (map title (sort_key rank_key ?ys))"
    by (rule distinct_map_sort_key) (simp only: t assms(1) distinct_map_filter)
  show ?thesis
  proof (cases "Q r")
    case True
    with assms(2) have "mk_item r (f r) \<in> set (sort_key rank_key ?ys)" by simp
    from find_unique[OF d this] True show ?thesis by simp
  next
    case False
    have "\<forall>x\<in>set (sort_key rank_key ?ys). title x \<noteq> title r"
    proof
      fix x assume "x \<in> set (sort_key rank_key ?ys)"
      then obtain r' where r': "r' \<in> set rs" "Q r'" "x = mk_item r' (f r')" by auto
      with False have "r' \<noteq> r" by auto
      with assms r'(1) have "title r' \<noteq> title r" by (auto simp: distinct_map inj_on_def)
      with r'(3) show "title x \<noteq> title r" by simp
    qed
    with False show ?thesis by (simp add: find_None_iff)
  qed
qed

lemma boost_loop_eq:
  assumes "\<forall>r\<in>set rs'. find (\<lambda>x. title x = title r) recs =
             (if Q r then Some (mk_item r (f r)) else None)"
  shows "boost_loop counts recs rs' acc =
           acc @ map (\<lambda>r. mk_item r (f r + bonus counts r)) (filter Q rs')"
  using assms by (induction rs' arbitrary: acc) simp_all

lemma history_boost_scored:
  assumes "distinct (map title rs)" "counts \<noteq> []" "normalized_topics ts \<noteq> {}"
  shows "history_boost rs counts (score_resources_by_topics rs ts) =
     sort_key rank_key
       (map (\<lambda>r. mk_item r (overlap (normalized_topics ts) r + bonus counts r))
          (filter (\<lambda>r. tag_set r \<inter> normalized_topics ts \<noteq> {}) rs))"
proof -
  let ?Q = "\<lambda>r. tag_set r \<inter> normalized_topics ts \<noteq> {}"
  let ?f = "overlap (normalized_topics ts)"
  have s: "score_resources_by_topics rs ts = sort_key rank_key (map (\<lambda>r. mk_item r (?f r)) (filter ?Q rs))"
    using assms(3) by (simp add: score_resources_eq)
  have "\<forall>r\<in>set rs. find (\<lambda>x. title x = title r) (score_resources_by_topics rs ts) =
             (if ?Q r then Some (mk_item r (?f r)) else None)"
    unfolding s using find_in_scored[OF assms(1)] by blast
  from boost_loop_eq[where Q = ?Q and f = ?f, OF this] assms(2)
  show ?thesis by (simp add: history_boost_def)
qed

lemma history_boost_empty:
  "history_boost rs counts [] = []"
proof -
  have "boost_loop counts [] rs' acc = acc" for rs' acc
    by (induction rs' arbitrary: acc) simp_all
  then show ?thesis by (simp add: history_boost_def)
qed

lemma ranked_history_boost:
  "ranked recs \<Longrightarrow> ranked (history_boost rs counts recs)"
  by (simp add: history_boost_def ranked_sort_key)

lemma recommend_ok:
  assumes "str_field d ''email'' = Inr em" "topics_of d = JArr ts"
  shows "recommend yt data d =
     (Inr (RecommendOk
        (history_boost SAMPLE_RESOURCES
           (if lower (strip em) \<noteq> []
            then get_user_topic_counts (record_user_topics data (lower (strip em)) ts) (lower (strip em))
            else [])
           (score_resources_by_topics SAMPLE_RESOURCES ts))
        (case ts of [] \<Rightarrow> [] | t # _ \<Rightarrow> yt t)),
      if lower (strip em) \<noteq> [] then record_user_topics data (lower (strip em)) ts else data)"
  using assms by (simp add: recommend_def Let_def)

lemma recommend_cases:
  assumes "recommend yt data d = (Inr (RecommendOk recs vids), data')"
  obtains em ts where "str_field d ''email'' = Inr em" "topics_of d = JArr ts"
  using assms by (auto simp: recommend_def Let_def split: sum.splits jval.splits)

lemma distinct_sample_titles: "distinct (map title SAMPLE_RESOURCES)"
  by (simp add: SAMPLE_RESOURCES_def)


lemma ranked_nth:
  "ranked xs \<Longrightarrow> i < j \<Longrightarrow> j < length xs \<Longrightarrow>
   score (xs ! j) \<le> score (xs ! i) \<and>
   (score (xs ! i) = score (xs ! j) \<longrightarrow> title (xs ! i) \<le> title (xs ! j))"
proof -
  assume "ranked xs" and ij: "i < j" "j < length xs"
  then have "score (xs ! i) > score (xs ! j) \<or>
      (score (xs ! i) = score (xs ! j) \<and> title (xs ! i) \<le> title (xs ! j))"
    unfolding ranked_def sorted_wrt_iff_nth_less by blast
  then show ?thesis by auto
qed

text \<open>
  C5. The list returned by the scorer, the list returned by the boost, and so the
  recommendations of every \<^verbatim>\<open>/recommend\<close> answer are in descending order of score,
  and entries with equal scores are in ascending order of title.
\<close>

theorem ranking_order:
  "ranked (score_resources_by_topics resources requested) \<and>
   ranked (history_boost resources user_counts (score_resources_by_topics resources requested)) \<and>
   (recommend yt data d = (Inr (RecommendOk recs vids), data') \<longrightarrow>
      ranked recs \<and>
      (\<forall>i j. i < j \<and> j < length recs \<longrightarrow>
         score (recs ! j) \<le> score (recs ! i) \<and>
         (score (recs ! i) = score (recs ! j) \<longrightarrow> title (recs ! i) \<le> title (recs ! j))))"
proof (intro conjI impI allI)
  show "ranked (score_resources_by_topics resources requested)" by (rule ranked_score)
  then show "ranked (history_boost resources user_counts (score_resources_by_topics resources requested))"
    by (rule ranked_history_boost)
next
  assume a: "recommend yt data d = (Inr (RecommendOk recs vids), data')"
  then obtain em ts where f: "str_field d ''email'' = Inr em" "topics_of d = JArr ts"
    by (rule recommend_cases)
  from a recommend_ok[OF f, of yt data]
  show r: "ranked recs" by (auto simp: ranked_history_boost ranked_score)
  fix i j assume "i < j \<and> j < length recs"
  with r ranked_nth[of recs i j]
  show "score (recs ! j) \<le> score (recs ! i)"
    "score (recs ! i) = score (recs ! j) \<Longrightarrow> title (recs ! i) \<le> title (recs ! j)"
    by blast+
qed

theorem ranking_order_witness:
  "recommend no_videos [] (map_of [(''topics'', JArr [JStr ''python''])]) =
     (Inr (RecommendOk
        [\<lparr>title = ''Django Overview'', description = ''Batteries-included web framework'',
           link = ''https://www.djangoproject.com/'', score = 1\<rparr>,
         \<lparr>title = ''Flask Basics'', description = ''Learn web development with Flask'',
           link = ''https://flask.palletsprojects.com/'', score = 1\<rparr>,
         \<lparr>title = ''Pandas Intro'', description = ''Data analysis library'',
           link = ''https://pandas.pydata.org/'', score = 1\<rparr>] []), []) \<and>
   ranked
        [\<lparr>title = ''Django Overview'', description = ''Batteries-included web framework'',
           link = ''https://www.djangoproject.com/'', score = 1\<rparr>,
         \<lparr>title = ''Flask Basics'', description = ''Learn web development with Flask'',
           link = ''https://flask.palletsprojects.com/'', score = 1\<rparr>,
         \<lparr>title = ''Pandas Intro'', description = ''Data analysis library'',
           link = ''https://pandas.pydata.org/'', score = 1\<rparr>]"
proof -
  let ?recs = "[\<lparr>title = ''Django Overview'', description = ''Batteries-included web framework'',
           link = ''https://www.djangoproject.com/'', score = 1\<rparr>,
         \<lparr>title = ''Flask Basics'', description = ''Learn web development with Flask'',
           link = ''https://flask.palletsprojects.com/'', score = 1\<rparr>,
         \<lparr>title = ''Pandas Intro'', description = ''Data analysis library'',
           link = ''https://pandas.pydata.org/'', score = 1\<rparr>]"
  have h: "recommend no_videos [] (map_of [(''topics'', JArr [JStr ''python''])]) =
     (Inr (RecommendOk ?recs []), [])"
    by code_simp
  from ranking_order[of SAMPLE_RESOURCES "[]" "[]" no_videos "[]"
      "map_of [(''topics'', JArr [JStr ''python''])]" ?recs "[]" "[]"] h
  have "ranked ?recs" by blast
  with h show ?thesis by blast
qed

section \<open>The boost inside a request\<close>

lemma bonus_history:
  "bonus (get_user_topic_counts data e) r =
     (if tag_set r \<inter> set (topics (get_user data e)) \<noteq> {} then 1 else 0)"
  by (auto simp: bonus_def keys_topic_counts)

lemma topic_counts_Nil_iff:
  "get_user_topic_counts data e = [] \<longleftrightarrow> topics (get_user data e) = []"
  using keys_topic_counts[of data e] by (metis image_is_empty set_empty)

lemma insort_key_map_mono:
  "(\<And>a b. f (g a) \<le> f (g b) \<longleftrightarrow> f a \<le> f b) \<Longrightarrow>
   insort_key f (g x) (map g xs) = map g (insort_key f x xs)"
  by (induction xs) simp_all

lemma sort_key_map_mono:
  "(\<And>a b. f (g a) \<le> f (g b) \<longleftrightarrow> f a \<le> f b) \<Longrightarrow>
   sort_key f (map g xs) = map g (sort_key f xs)"
  by (induction xs) (simp_all add: insort_key_map_mono)

lemma sort_key_bump_score:
  "sort_key rank_key (map (\<lambda>x. x\<lparr>score := score x + 1\<rparr>) xs) =
     map (\<lambda>x. x\<lparr>score := score x + 1\<rparr>) (sort_key rank_key xs)"
  by (rule sort_key_map_mono) (auto simp: rank_key_def)

text \<open>
  C2. For a request with a non-blank email whose user, after the request's topics are
  recorded, has a non-empty topic history, the recommendations are the base scored list
  with 1 added to the score of every entry whose resource has a lowercased tag in that
  history, whatever the tag's frequency, and 0 to the others, sorted again by the same
  key. No entry is added to or dropped from the base list.
\<close>

theorem history_boost_presence:
  "str_field d ''email'' = Inr em \<Longrightarrow> lower (strip em) \<noteq> [] \<Longrightarrow> topics_of d = JArr ts \<Longrightarrow>
   hist = topics (get_user (record_user_topics data (lower (strip em)) ts) (lower (strip em))) \<Longrightarrow>
   hist \<noteq> [] \<Longrightarrow>
   \<exists>recs vids.
     recommend yt data d =
       (Inr (RecommendOk recs vids), record_user_topics data (lower (strip em)) ts) \<and>
     ranked recs \<and>
     mset recs =
       image_mset
         (\<lambda>x. x\<lparr>score := score x +
                  (if \<exists>r\<in>set SAMPLE_RESOURCES. title r = title x \<and> tag_set r \<inter> set hist \<noteq> {}
                   then 1 else 0)\<rparr>)
         (mset (score_resources_by_topics SAMPLE_RESOURCES ts))"
proof -
  assume f: "str_field d ''email'' = Inr em" "topics_of d = JArr ts"
    and e: "lower (strip em) \<noteq> []"
    and h: "hist = topics (get_user (record_user_topics data (lower (strip em)) ts) (lower (strip em)))"
    and ne: "hist \<noteq> []"
  let ?data' = "record_user_topics data (lower (strip em)) ts"
  let ?counts = "get_user_topic_counts ?data' (lower (strip em))"
  let ?base = "score_resources_by_topics SAMPLE_RESOURCES ts"
  let ?recs = "history_boost SAMPLE_RESOURCES ?counts ?base"
  let ?g = "\<lambda>x. x\<lparr>score := score x +
                  (if \<exists>r\<in>set SAMPLE_RESOURCES. title r = title x \<and> tag_set r \<inter> set hist \<noteq> {}
                   then 1 else 0)\<rparr>"
  have c: "?counts \<noteq> []" using h ne by (simp add: topic_counts_Nil_iff)
  have r: "recommend yt data d = (Inr (RecommendOk ?recs (case ts of [] \<Rightarrow> [] | t # _ \<Rightarrow> yt t)), ?data')"
    using recommend_ok[OF f, of yt data] e by simp
  have rk: "ranked ?recs" by (simp add: ranked_history_boost ranked_score)
  have m: "mset ?recs = image_mset ?g (mset ?base)"
  proof (cases "normalized_topics ts = {}")
    case True
    then have "?base = []" by (simp add: score_resources_eq)
    then show ?thesis by (simp add: history_boost_empty)
  next
    case False
    let ?Q = "\<lambda>r. tag_set r \<inter> normalized_topics ts \<noteq> {}"
    let ?f = "overlap (normalized_topics ts)"
    have g: "?g (mk_item r (?f r)) = mk_item r (?f r + bonus ?counts r)"
      if "r \<in> set SAMPLE_RESOURCES" for r
    proof -
      have "(\<exists>r'\<in>set SAMPLE_RESOURCES. title r' = title r \<and> tag_set r' \<inter> set hist \<noteq> {}) \<longleftrightarrow>
          tag_set r \<inter> set hist \<noteq> {}"
        using that distinct_sample_titles by (auto simp: distinct_map inj_on_def)
      then show ?thesis by (simp add: bonus_history h)
    qed
    have "mset ?recs = image_mset (\<lambda>r. mk_item r (?f r + bonus ?counts r))
        (filter_mset ?Q (mset SAMPLE_RESOURCES))"
      by (simp add: history_boost_scored[OF distinct_sample_titles c False] flip: mset_filter)
    also have "\<dots> = image_mset (\<lambda>r. ?g (mk_item r (?f r))) (filter_mset ?Q (mset SAMPLE_RESOURCES))"
    proof (rule image_mset_cong)
      fix r assume "r \<in># filter_mset ?Q (mset SAMPLE_RESOURCES)"
      then have "r \<in> set SAMPLE_RESOURCES" by simp
      from g[OF this] show "mk_item r (?f r + bonus ?counts r) = ?g (mk_item r (?f r))"
        by (rule sym)
    qed
    also have "\<dots> = image_mset ?g (mset ?base)"
      using False by (simp add: score_resources_eq multiset.map_comp comp_def flip: mset_filter)
    finally show ?thesis .
  qed
  from r rk m show ?thesis by blast
qed


theorem history_boost_presence_witness:
  "\<exists>recs vids.
     recommend no_videos []
       (map_of [(''email'', JStr ''a@b.com''), (''topics'', JArr [JStr ''web'', JStr ''data''])]) =
       (Inr (RecommendOk recs vids),
        [(''a@b.com'', \<lparr>topics = [''web'', ''data''], completed = [], points = 0\<rparr>)]) \<and>
     ranked recs \<and>
     mset recs =
       {#\<lparr>title = ''Django Overview'', description = ''Batteries-included web framework'',
           link = ''https://www.djangoproject.com/'', score = 2\<rparr>,
         \<lparr>title = ''Flask Basics'', description = ''Learn web development with Flask'',
           link = ''https://flask.palletsprojects.com/'', score = 2\<rparr>,
         \<lparr>title = ''Pandas Intro'', description = ''Data analysis library'',
           link = ''https://pandas.pydata.org/'', score = 2\<rparr>#}"
proof -
  let ?d = "map_of [(''email'', JStr ''a@b.com''), (''topics'', JArr [JStr ''web'', JStr ''data''])]"
  let ?ts = "[JStr ''web'', JStr ''data'']"
  let ?hist = "[''web'', ''data'']"
  have f: "str_field ?d ''email'' = Inr ''a@b.com''" by (simp add: str_field_def)
  have t: "topics_of ?d = JArr ?ts" by (simp add: topics_of_def)
  have s: "lower (strip ''a@b.com'') = ''a@b.com''" by code_simp
  have e: "lower (strip ''a@b.com'') \<noteq> []" unfolding s by simp
  have st: "record_user_topics [] ''a@b.com'' ?ts =
      [(''a@b.com'', \<lparr>topics = [''web'', ''data''], completed = [], points = 0\<rparr>)]"
    by code_simp
  have h: "?hist = topics (get_user (record_user_topics [] (lower (strip ''a@b.com'')) ?ts)
      (lower (strip ''a@b.com'')))"
    unfolding s st by (simp add: get_user_def)
  have b: "score_resources_by_topics SAMPLE_RESOURCES ?ts =
       [\<lparr>title = ''Django Overview'', description = ''Batteries-included web framework'',
           link = ''https://www.djangoproject.com/'', score = 1\<rparr>,
         \<lparr>title = ''Flask Basics'', description = ''Learn web development with Flask'',
           link = ''https://flask.palletsprojects.com/'', score = 1\<rparr>,
         \<lparr>title = ''Pandas Intro'', description = ''Data analysis library'',
           link = ''https://pandas.pydata.org/'', score = 1\<rparr>]"
    by code_simp
  have g: "\<exists>r\<in>set SAMPLE_RESOURCES.
        title r = ''Django Overview'' \<and> (''web'' \<in> tag_set r \<or> ''data'' \<in> tag_set r)"
    "\<exists>r\<in>set SAMPLE_RESOURCES.
        title r = ''Flask Basics'' \<and> (''web'' \<in> tag_set r \<or> ''data'' \<in> tag_set r)"
    "\<exists>r\<in>set SAMPLE_RESOURCES.
        title r = ''Pandas Intro'' \<and> (''web'' \<in> tag_set r \<or> ''data'' \<in> tag_set r)"
    by code_simp+
  from history_boost_presence[of ?d "''a@b.com''" ?ts ?hist "[]" no_videos, OF f e t h]
  show ?thesis unfolding s st b by (simp add: g)
qed

text \<open>
  C10. In a request with a non-blank email and at least one valid topic, the request's
  topics are in the history when the counts are read, every entry of the base scored list
  gets the bonus, and the recommendations are the base list, in its order, with every
  score raised by 1.
\<close>

theorem own_topics_boost_uniform:
  "str_field d ''email'' = Inr em \<Longrightarrow> lower (strip em) \<noteq> [] \<Longrightarrow> topics_of d = JArr ts \<Longrightarrow>
   normalized_topics ts \<noteq> {} \<Longrightarrow>
   normalized_topics ts \<subseteq>
     fst ` set (get_user_topic_counts (record_user_topics data (lower (strip em)) ts)
                  (lower (strip em))) \<and>
   (\<exists>vids.
      recommend yt data d =
        (Inr (RecommendOk
           (map (\<lambda>x. x\<lparr>score := score x + 1\<rparr>) (score_resources_by_topics SAMPLE_RESOURCES ts))
           vids),
         record_user_topics data (lower (strip em)) ts))"
proof -
  assume f: "str_field d ''email'' = Inr em" "topics_of d = JArr ts"
    and e: "lower (strip em) \<noteq> []" and nt: "normalized_topics ts \<noteq> {}"
  let ?data' = "record_user_topics data (lower (strip em)) ts"
  let ?counts = "get_user_topic_counts ?data' (lower (strip em))"
  let ?Q = "\<lambda>r. tag_set r \<inter> normalized_topics ts \<noteq> {}"
  let ?f = "overlap (normalized_topics ts)"
  have k: "normalized_topics ts \<subseteq> fst ` set ?counts"
    by (auto simp: keys_topic_counts get_user_record_user_topics normalized_topics_def)
  with nt have c: "?counts \<noteq> []" by auto
  have b: "bonus ?counts r = 1" if "?Q r" for r
    using that k by (auto simp: bonus_def)
  have m: "map (\<lambda>r. mk_item r (?f r + bonus ?counts r)) (filter ?Q SAMPLE_RESOURCES) =
      map (\<lambda>x. x\<lparr>score := score x + 1\<rparr>) (map (\<lambda>r. mk_item r (?f r)) (filter ?Q SAMPLE_RESOURCES))"
    by (simp add: b)
  have "history_boost SAMPLE_RESOURCES ?counts (score_resources_by_topics SAMPLE_RESOURCES ts) =
      sort_key rank_key (map (\<lambda>r. mk_item r (?f r + bonus ?counts r)) (filter ?Q SAMPLE_RESOURCES))"
    by (rule history_boost_scored[OF distinct_sample_titles c nt])
  also have "\<dots> = sort_key rank_key
      (map (\<lambda>x. x\<lparr>score := score x + 1\<rparr>) (map (\<lambda>r. mk_item r (?f r)) (filter ?Q SAMPLE_RESOURCES)))"
    by (simp only: m)
  also have "\<dots> = map (\<lambda>x. x\<lparr>score := score x + 1\<rparr>)
      (sort_key rank_key (map (\<lambda>r. mk_item r (?f r)) (filter ?Q SAMPLE_RESOURCES)))"
    by (rule sort_key_bump_score)
  also have "\<dots> = map (\<lambda>x. x\<lparr>score := score x + 1\<rparr>) (score_resources_by_topics SAMPLE_RESOURCES ts)"
    using nt by (simp add: score_resources_eq)
  finally have "history_boost SAMPLE_RESOURCES ?counts (score_resources_by_topics SAMPLE_RESOURCES ts) =
      map (\<lambda>x. x\<lparr>score := score x + 1\<rparr>) (score_resources_by_topics SAMPLE_RESOURCES ts)" .
  with recommend_ok[OF f, of yt data] e k show ?thesis by simp
qed


theorem own_topics_boost_uniform_witness:
  "\<exists>vids.
     recommend no_videos []
       (map_of [(''email'', JStr ''a@b.com''), (''topics'', JArr [JStr ''python'', JStr ''data''])]) =
       (Inr (RecommendOk
          [\<lparr>title = ''Pandas Intro'', description = ''Data analysis library'',
             link = ''https://pandas.pydata.org/'', score = 3\<rparr>,
           \<lparr>title = ''Django Overview'', description = ''Batteries-included web framework'',
             link = ''https://www.djangoproject.com/'', score = 2\<rparr>,
           \<lparr>title = ''Flask Basics'', description = ''Learn web development with Flask'',
             link = ''https://flask.palletsprojects.com/'', score = 2\<rparr>]
          vids),
        [(''a@b.com'', \<lparr>topics = [''python'', ''data''], completed = [], points = 0\<rparr>)])"
proof -
  let ?d = "map_of [(''email'', JStr ''a@b.com''), (''topics'', JArr [JStr ''python'', JStr ''data''])]"
  let ?ts = "[JStr ''python'', JStr ''data'']"
  have f: "str_field ?d ''email'' = Inr ''a@b.com''" by (simp add: str_field_def)
  have t: "topics_of ?d = JArr ?ts" by (simp add: topics_of_def)
  have s: "lower (strip ''a@b.com'') = ''a@b.com''" by code_simp
  have e: "lower (strip ''a@b.com'') \<noteq> []" unfolding s by simp
  have n: "normalized_topics ?ts = {''python'', ''data''}" by code_simp
  have nt: "normalized_topics ?ts \<noteq> {}" unfolding n by simp
  have st: "record_user_topics [] ''a@b.com'' ?ts =
      [(''a@b.com'', \<lparr>topics = [''python'', ''data''], completed = [], points = 0\<rparr>)]"
    by code_simp
  have b: "score_resources_by_topics SAMPLE_RESOURCES ?ts =
       [\<lparr>title = ''Pandas Intro'', description = ''Data analysis library'',
           link = ''https://pandas.pydata.org/'', score = 2\<rparr>,
        \<lparr>title = ''Django Overview'', description = ''Batteries-included web framework'',
           link = ''https://www.djangoproject.com/'', score = 1\<rparr>,
        \<lparr>title = ''Flask Basics'', description = ''Learn web development with Flask'',
           link = ''https://flask.palletsprojects.com/'', score = 1\<rparr>]"
    by code_simp
  from own_topics_boost_uniform[of ?d "''a@b.com''" ?ts "[]" no_videos, OF f e t nt]
  show ?thesis unfolding s st b by simp
qed

section \<open>Validation of the topics field\<close>

text \<open>
  A request with \<^verbatim>\<open>topics: ""\<close> and \<^verbatim>\<open>topic: "python"\<close>: the \<^verbatim>\<open>topics\<close> value is
  present and is not a list, and the answer is a recommendations payload with status 200.
\<close>

theorem topics_not_list_counterexample:
  "map_of [(''topics'', JStr []), (''topic'', JStr ''python'')] ''topics'' = Some (JStr []) \<and>
   recommend no_videos [] (map_of [(''topics'', JStr []), (''topic'', JStr ''python'')]) =
     (Inr (RecommendOk
        [\<lparr>title = ''Django Overview'', description = ''Batteries-included web framework'',
           link = ''https://www.djangoproject.com/'', score = 1\<rparr>,
         \<lparr>title = ''Flask Basics'', description = ''Learn web development with Flask'',
           link = ''https://flask.palletsprojects.com/'', score = 1\<rparr>,
         \<lparr>title = ''Pandas Intro'', description = ''Data analysis library'',
           link = ''https://pandas.pydata.org/'', score = 1\<rparr>] []), []) \<and>
   status (RecommendOk
        [\<lparr>title = ''Django Overview'', description = ''Batteries-included web framework'',
           link = ''https://www.djangoproject.com/'', score = 1\<rparr>,
         \<lparr>title = ''Flask Basics'', description = ''Learn web development with Flask'',
           link = ''https://flask.palletsprojects.com/'', score = 1\<rparr>,
         \<lparr>title = ''Pandas Intro'', description = ''Data analysis library'',
           link = ''https://pandas.pydata.org/'', score = 1\<rparr>] []) = 200"
  by code_simp

lemma recommend_list:
  "str_field d ''email'' = Inr em \<Longrightarrow> topics_of d = JArr ts \<Longrightarrow>
   recommend yt data d = recommend_for yt data (lower (strip em)) ts"
  by (simp add: recommend_def recommend_for_def Let_def)

lemma topics_of_array:
  "d ''topics'' = Some (JArr ts) \<Longrightarrow> ts \<noteq> [] \<Longrightarrow> topics_of d = JArr ts"
  by (simp add: topics_of_def)

lemma topics_of_single:
  "d ''topics'' = None \<or> (\<exists>v. d ''topics'' = Some v \<and> \<not> truthy v) \<Longrightarrow>
   d ''topic'' = Some (JStr t) \<Longrightarrow> topics_of d = JArr [JStr t]"
  by (auto simp: topics_of_def)

lemma topics_of_none:
  "d ''topics'' = None \<or> d ''topics'' = Some (JArr []) \<Longrightarrow>
   \<forall>t. d ''topic'' \<noteq> Some (JStr t) \<Longrightarrow> topics_of d = JArr []"
  by (auto simp: topics_of_def Let_def split: option.splits jval.splits)

lemma topics_of_other:
  "d ''topics'' = Some v \<Longrightarrow> truthy v \<or> (\<forall>t. d ''topic'' \<noteq> Some (JStr t)) \<Longrightarrow>
   topics_of d = v"
  by (auto simp: topics_of_def split: option.splits jval.splits)

text \<open>
  C9, as amended. For a request whose email is absent, falsy or a string,
  \<^verbatim>\<open>/recommend\<close> takes the topic list from \<^verbatim>\<open>topics\<close> when that is a non-empty
  array; from the single string \<^verbatim>\<open>topic\<close>, as \<^verbatim>\<open>[topic]\<close>, when \<^verbatim>\<open>topics\<close> is
  absent or falsy and \<^verbatim>\<open>topic\<close> is a string; and takes the empty list when
  \<^verbatim>\<open>topics\<close> is absent or an empty array and \<^verbatim>\<open>topic\<close> is not a string. In
  these cases the answer is the recommendations payload for that list. The answer is the
  400 error, with the store unchanged, when \<^verbatim>\<open>topics\<close> is present, not a list, and
  either truthy or not accompanied by a string \<^verbatim>\<open>topic\<close>.
\<close>

theorem topics_must_be_list:
  "str_field d ''email'' = Inr em \<Longrightarrow>
   (d ''topics'' = Some (JArr ts) \<and> ts \<noteq> [] \<longrightarrow>
      recommend yt data d = recommend_for yt data (lower (strip em)) ts) \<and>
   ((d ''topics'' = None \<or> (\<exists>w. d ''topics'' = Some w \<and> \<not> truthy w)) \<and>
      d ''topic'' = Some (JStr t) \<longrightarrow>
      recommend yt data d = recommend_for yt data (lower (strip em)) [JStr t]) \<and>
   ((d ''topics'' = None \<or> d ''topics'' = Some (JArr [])) \<and>
      (\<forall>t'. d ''topic'' \<noteq> Some (JStr t')) \<longrightarrow>
      recommend yt data d = recommend_for yt data (lower (strip em)) []) \<and>
   (d ''topics'' = Some v \<and> (\<forall>ts'. v \<noteq> JArr ts') \<and>
      (truthy v \<or> (\<forall>t'. d ''topic'' \<noteq> Some (JStr t'))) \<longrightarrow>
      recommend yt data d = (Inr (Error400 ''topics must be a list''), data) \<and>
      status (Error400 ''topics must be a list'') = 400) \<and>
   (d ''topics'' = Some v \<and> (\<forall>ts'. v \<noteq> JArr ts') \<and> \<not> truthy v \<and>
      d ''topic'' = Some (JStr t) \<longrightarrow>
      recommend yt data d = recommend yt data (d(''topics'' \<mapsto> JArr [JStr t])) \<and>
      (\<exists>recs vids data'. recommend yt data d = (Inr (RecommendOk recs vids), data'))) \<and>
   (\<exists>recs vids data'.
      recommend_for yt data email ts = (Inr (RecommendOk recs vids), data') \<and>
      status (RecommendOk recs vids) = 200 \<and>
      data' = (if email \<noteq> [] then record_user_topics data email ts else data) \<and>
      recs = history_boost SAMPLE_RESOURCES
               (if email \<noteq> [] then get_user_topic_counts data' email else [])
               (score_resources_by_topics SAMPLE_RESOURCES ts))"
proof (intro conjI impI)
  assume f: "str_field d ''email'' = Inr em"
  {
    assume "d ''topics'' = Some (JArr ts) \<and> ts \<noteq> []"
    then have "topics_of d = JArr ts" by (simp add: topics_of_array)
    with f show "recommend yt data d = recommend_for yt data (lower (strip em)) ts"
      by (rule recommend_list)
  }
  {
    assume "(d ''topics'' = None \<or> (\<exists>w. d ''topics'' = Some w \<and> \<not> truthy w)) \<and>
      d ''topic'' = Some (JStr t)"
    then have "topics_of d = JArr [JStr t]" by (simp add: topics_of_single)
    with f show "recommend yt data d = recommend_for yt data (lower (strip em)) [JStr t]"
      by (rule recommend_list)
  }
  {
    assume "(d ''topics'' = None \<or> d ''topics'' = Some (JArr [])) \<and>
      (\<forall>t'. d ''topic'' \<noteq> Some (JStr t'))"
    then have "topics_of d = JArr []" by (simp add: topics_of_none)
    with f show "recommend yt data d = recommend_for yt data (lower (strip em)) []"
      by (rule recommend_list)
  }
  {
    assume a: "d ''topics'' = Some v \<and> (\<forall>ts'. v \<noteq> JArr ts') \<and>
      (truthy v \<or> (\<forall>t'. d ''topic'' \<noteq> Some (JStr t')))"
    then have "topics_of d = v" by (simp add: topics_of_other)
    with a f show "recommend yt data d = (Inr (Error400 ''topics must be a list''), data)"
      by (cases v) (simp_all add: recommend_def Let_def)
    show "status (Error400 ''topics must be a list'') = 400" by simp
  }
  {
    assume a: "d ''topics'' = Some v \<and> (\<forall>ts'. v \<noteq> JArr ts') \<and> \<not> truthy v \<and>
      d ''topic'' = Some (JStr t)"
    let ?d' = "d(''topics'' \<mapsto> JArr [JStr t])"
    from a have t: "topics_of d = JArr [JStr t]" by (simp add: topics_of_def)
    have t': "topics_of ?d' = JArr [JStr t]" by (simp add: topics_of_def)
    have f': "str_field ?d' ''email'' = Inr em" using f by (simp add: str_field_def)
    from recommend_ok[OF f t, of yt data] recommend_ok[OF f' t', of yt data]
    show "recommend yt data d = recommend yt data ?d'" by simp
    from recommend_ok[OF f t, of yt data]
    show "\<exists>recs vids data'. recommend yt data d = (Inr (RecommendOk recs vids), data')"
      by blast
  }
  show "\<exists>recs vids data'.
      recommend_for yt data email ts = (Inr (RecommendOk recs vids), data') \<and>
      status (RecommendOk recs vids) = 200 \<and>
      data' = (if email \<noteq> [] then record_user_topics data email ts else data) \<and>
      recs = history_boost SAMPLE_RESOURCES
               (if email \<noteq> [] then get_user_topic_counts data' email else [])
               (score_resources_by_topics SAMPLE_RESOURCES ts)"
    by (simp add: recommend_for_def Let_def)
qed

theorem topics_must_be_list_witness:
  "recommend no_videos [] (map_of [(''topics'', JStr ''python'')]) =
     (Inr (Error400 ''topics must be a list''), []) \<and>
   recommend no_videos [] (map_of [(''topics'', JNum 0)]) =
     (Inr (Error400 ''topics must be a list''), []) \<and>
   recommend no_videos [] (map_of [(''topics'', JNum 0), (''topic'', JStr ''python'')]) =
     recommend no_videos [] ((map_of [(''topics'', JNum 0), (''topic'', JStr ''python'')])
        (''topics'' \<mapsto> JArr [JStr ''python''])) \<and>
   recommend no_videos [] (map_of [(''topics'', JArr [JStr ''data''])]) =
     recommend_for no_videos [] [] [JStr ''data''] \<and>
   recommend no_videos [] (map_of [(''topic'', JStr ''data'')]) =
     recommend_for no_videos [] [] [JStr ''data''] \<and>
   recommend no_videos [] (map_of [(''topics'', JArr []), (''topic'', JStr ''data'')]) =
     recommend_for no_videos [] [] [JStr ''data''] \<and>
   recommend no_videos [] (map_of [(''topic'', JNum 7)]) = recommend_for no_videos [] [] [] \<and>
   recommend_for no_videos [] [] [JStr ''data''] =
     (Inr (RecommendOk
        [\<lparr>title = ''Pandas Intro'', description = ''Data analysis library'',
           link = ''https://pandas.pydata.org/'', score = 1\<rparr>] []), []) \<and>
   recommend_for no_videos [] [] [] = (Inr (RecommendOk [] []), [])"
proof -
  let ?d1 = "map_of [(''topics'', JStr ''python'')]"
  let ?d2 = "map_of [(''topics'', JNum 0)]"
  let ?d3 = "map_of [(''topics'', JNum 0), (''topic'', JStr ''python'')]"
  let ?d4 = "map_of [(''topics'', JArr [JStr ''data''])]"
  let ?d5 = "map_of [(''topic'', JStr ''data'')]"
  let ?d6 = "map_of [(''topics'', JArr []), (''topic'', JStr ''data'')]"
  let ?d7 = "map_of [(''topic'', JNum 7)]"
  have e: "str_field ?d1 ''email'' = Inr []" "str_field ?d2 ''email'' = Inr []"
    "str_field ?d3 ''email'' = Inr []" "str_field ?d4 ''email'' = Inr []"
    "str_field ?d5 ''email'' = Inr []" "str_field ?d6 ''email'' = Inr []"
    "str_field ?d7 ''email'' = Inr []"
    by (simp_all add: str_field_def)
  have s: "lower (strip []) = []" by (simp add: lower_def strip_def)
  have a1: "?d1 ''topics'' = Some (JStr ''python'') \<and> (\<forall>ts'. JStr ''python'' \<noteq> JArr ts') \<and>
      (truthy (JStr ''python'') \<or> (\<forall>t'. ?d1 ''topic'' \<noteq> Some (JStr t')))"
    by simp
  have a2: "?d2 ''topics'' = Some (JNum 0) \<and> (\<forall>ts'. JNum 0 \<noteq> JArr ts') \<and>
      (truthy (JNum 0) \<or> (\<forall>t'. ?d2 ''topic'' \<noteq> Some (JStr t')))"
    by simp
  have a3: "?d3 ''topics'' = Some (JNum 0) \<and> (\<forall>ts'. JNum 0 \<noteq> JArr ts') \<and> \<not> truthy (JNum 0) \<and>
      ?d3 ''topic'' = Some (JStr ''python'')"
    by simp
  have a4: "?d4 ''topics'' = Some (JArr [JStr ''data'']) \<and> [JStr ''data''] \<noteq> []"
    by simp
  have a5: "(?d5 ''topics'' = None \<or> (\<exists>w. ?d5 ''topics'' = Some w \<and> \<not> truthy w)) \<and>
      ?d5 ''topic'' = Some (JStr ''data'')"
    by simp
  have a6: "(?d6 ''topics'' = None \<or> (\<exists>w. ?d6 ''topics'' = Some w \<and> \<not> truthy w)) \<and>
      ?d6 ''topic'' = Some (JStr ''data'')"
    by simp
  have a7: "(?d7 ''topics'' = None \<or> ?d7 ''topics'' = Some (JArr [])) \<and>
      (\<forall>t'. ?d7 ''topic'' \<noteq> Some (JStr t'))"
    by simp
  have 1: "recommend no_videos [] ?d1 = (Inr (Error400 ''topics must be a list''), [])"
    using topics_must_be_list[OF e(1), where v = "JStr ''python''" and yt = no_videos and data = "[]"
        and ts = "[]" and t = "[]" and email = "[]"] a1
    by blast
  have 2: "recommend no_videos [] ?d2 = (Inr (Error400 ''topics must be a list''), [])"
    using topics_must_be_list[OF e(2), where v = "JNum 0" and yt = no_videos and data = "[]"
        and ts = "[]" and t = "[]" and email = "[]"] a2
    by blast
  have 3: "recommend no_videos [] ?d3 = recommend no_videos [] (?d3(''topics'' \<mapsto> JArr [JStr ''python'']))"
    using topics_must_be_list[OF e(3), where v = "JNum 0" and t = "''python''" and yt = no_videos
        and data = "[]" and ts = "[]" and email = "[]"] a3
    by blast
  have 4: "recommend no_videos [] ?d4 = recommend_for no_videos [] [] [JStr ''data'']"
    using topics_must_be_list[OF e(4), where ts = "[JStr ''data'']" and yt = no_videos and data = "[]"
        and v = JNull and t = "[]" and email = "[]"] a4
    unfolding s by blast
  have 5: "recommend no_videos [] ?d5 = recommend_for no_videos [] [] [JStr ''data'']"
    using topics_must_be_list[OF e(5), where t = "''data''" and yt = no_videos and data = "[]"
        and v = JNull and ts = "[]" and email = "[]"] a5
    unfolding s by blast
  have 6: "recommend no_videos [] ?d6 = recommend_for no_videos [] [] [JStr ''data'']"
    using topics_must_be_list[OF e(6), where t = "''data''" and yt = no_videos and data = "[]"
        and v = JNull and ts = "[]" and email = "[]"] a6
    unfolding s by blast
  have 7: "recommend no_videos [] ?d7 = recommend_for no_videos [] [] []"
    using topics_must_be_list[OF e(7), where yt = no_videos and data = "[]"
        and v = JNull and ts = "[]" and t = "[]" and email = "[]"] a7
    unfolding s by blast
  have 8: "recommend_for no_videos [] [] [JStr ''data''] =
     (Inr (RecommendOk
        [\<lparr>title = ''Pandas Intro'', description = ''Data analysis library'',
           link = ''https://pandas.pydata.org/'', score = 1\<rparr>] []), [])"
    by code_simp
  have 9: "recommend_for no_videos [] [] [] = (Inr (RecommendOk [] []), [])"
    by code_simp
  from 1 2 3 4 5 6 7 8 9 show ?thesis by blast
qed

end
